theory Spec2Isabelle
  imports Main "HOL-Library.Word" "HOL-Library.Signed_Division" "HOL-Library.AList"
begin

unbundle bit_operations_syntax

section \<open>Wire types (cme\_protocol.h)\<close>

text \<open>
  Fixed-width integers of the source are words; a signed field (\<open>int64_t\<close>,
  \<open>int32_t\<close>) is the word of the same width, read with \<open>sint\<close> where its sign
  matters.  The entry type and the update action are kept as the raw byte of the wire:
  the source casts the byte to the enumeration without checking it, so every byte value
  can reach the comparisons below.
\<close>

type_synonym u8 = "8 word"
type_synonym u16 = "16 word"
type_synonym u32 = "32 word"
type_synonym u64 = "64 word"
type_synonym i32 = "32 word"
type_synonym i64 = "64 word"

definition Bid :: u8 where "Bid = 0"
definition Offer :: u8 where "Offer = 1"
definition Trade :: u8 where "Trade = 2"
definition ImpliedBid :: u8 where "ImpliedBid = 0x45"
definition ImpliedOffer :: u8 where "ImpliedOffer = 0x46"

definition New :: u8 where "New = 0"
definition Change :: u8 where "Change = 1"
definition Delete :: u8 where "Delete = 2"
definition DeleteThru :: u8 where "DeleteThru = 3"
definition DeleteFrom :: u8 where "DeleteFrom = 4"
definition Overlay :: u8 where "Overlay = 5"

record MDIncrementalRefreshEntry =
  md_entry_px :: i64
  md_entry_size :: i32
  security_id :: u32
  rpt_seq :: u32
  md_entry_type :: u8
  md_update_action :: u8
  md_price_level :: u8
  number_of_orders :: u8

text \<open>The snapshot entry has the same field names in the source; here they carry the
  prefix \<open>se_\<close>.\<close>

record MDSnapshotEntry =
  se_md_entry_px :: i64
  se_md_entry_size :: i32
  se_md_entry_type :: u8
  se_md_price_level :: u8
  se_number_of_orders :: u8
  se_padding :: u8

text \<open>\<open>cmeToFixedPrice\<close>: C++ division of a signed 64-bit value by 1000 truncates
  towards zero (the quotient always fits), and the conversion to \<open>uint32_t\<close> keeps
  the low 32 bits.\<close>

definition sdiv64 :: "i64 \<Rightarrow> i64 \<Rightarrow> i64" where
  "sdiv64 a b = word_of_int (sint a sdiv sint b)"

definition cmeToFixedPrice :: "i64 \<Rightarrow> u32" where
  "cmeToFixedPrice cme_price = ucast (sdiv64 cme_price 1000)"

section \<open>The L2 book (cme\_order\_book.h, cme\_order\_book.cpp)\<close>

record CmePriceLevel =
  price :: i64
  quantity :: i32
  order_count :: u8

definition CmePriceLevel0 :: CmePriceLevel where
  "CmePriceLevel0 = \<lparr>price = 0, quantity = 0, order_count = 0\<rparr>"

definition CmePriceLevel3 :: "i64 \<Rightarrow> i32 \<Rightarrow> u8 \<Rightarrow> CmePriceLevel" where
  "CmePriceLevel3 p q oc = \<lparr>price = p, quantity = q, order_count = oc\<rparr>"

abbreviation CME_MAX_DEPTH :: nat where "CME_MAX_DEPTH \<equiv> 10"

text \<open>
  The two \<open>std::array<CmePriceLevel, 10>\<close> are lists of length 10.  The counts are
  \<open>uint8_t\<close> in the source; every assignment to them is guarded (\<open>< 10\<close> before
  \<open>++\<close>, \<open>> 0\<close> before \<open>--\<close>) or stores an index of at most 10, so they never
  wrap and are natural numbers here.  The members lose the trailing underscore of the
  source.
\<close>

record CmeOrderBook =
  book_security_id :: u32
  last_rpt_seq :: u32
  bids :: "CmePriceLevel list"
  asks :: "CmePriceLevel list"
  bid_count :: nat
  ask_count :: nat
  last_trade_price :: i64
  last_trade_qty :: i32
  total_volume :: u64

definition clear :: "CmeOrderBook \<Rightarrow> CmeOrderBook" where
  "clear b = b\<lparr>bids := map (\<lambda>level. CmePriceLevel0) (bids b),
               asks := map (\<lambda>level. CmePriceLevel0) (asks b),
               bid_count := 0, ask_count := 0\<rparr>"

text \<open>The constructor: members take their default initialisers, the arrays are
  default-constructed, then \<open>clear()\<close> runs.\<close>

definition CmeOrderBook_new :: "u32 \<Rightarrow> CmeOrderBook" where
  "CmeOrderBook_new sid =
     clear \<lparr>book_security_id = sid, last_rpt_seq = 0,
            bids = replicate CME_MAX_DEPTH CmePriceLevel0,
            asks = replicate CME_MAX_DEPTH CmePriceLevel0,
            bid_count = 0, ask_count = 0,
            last_trade_price = 0, last_trade_qty = 0, total_volume = 0\<rparr>"

subsection \<open>The loops of \<open>applyBid\<close> and \<open>applyAsk\<close>\<close>

text \<open>\<open>for (i = CME_MAX_DEPTH - 1; i > idx; --i) a[i] = a[i - 1];\<close>
  with the loop variable as third argument.\<close>

fun shift_down :: "CmePriceLevel list \<Rightarrow> nat \<Rightarrow> nat \<Rightarrow> CmePriceLevel list" where
  "shift_down a idx 0 = a"
| "shift_down a idx (Suc j) =
     (if Suc j > idx then shift_down (a[Suc j := a ! j]) idx j else a)"

text \<open>\<open>for (i = idx; i < CME_MAX_DEPTH - 1; ++i) a[i] = a[i + 1];\<close>\<close>

function shift_up :: "CmePriceLevel list \<Rightarrow> nat \<Rightarrow> CmePriceLevel list" where
  "shift_up a i =
     (if i < CME_MAX_DEPTH - 1 then shift_up (a[i := a ! (i + 1)]) (i + 1) else a)"
  by pat_completeness auto
termination
  by (relation "measure (\<lambda>(a, i). CME_MAX_DEPTH - 1 - i)") auto

declare shift_up.simps [simp del]

text \<open>\<open>for (i = 0; i <= idx && i < CME_MAX_DEPTH; ++i) a[i] = CmePriceLevel();\<close>\<close>

function clear_thru :: "CmePriceLevel list \<Rightarrow> nat \<Rightarrow> nat \<Rightarrow> CmePriceLevel list" where
  "clear_thru a idx i =
     (if i \<le> idx \<and> i < CME_MAX_DEPTH
      then clear_thru (a[i := CmePriceLevel0]) idx (i + 1) else a)"
  by pat_completeness auto
termination
  by (relation "measure (\<lambda>(a, idx, i). CME_MAX_DEPTH - i)") auto

declare clear_thru.simps [simp del]

text \<open>\<open>for (i = idx; i < CME_MAX_DEPTH; ++i) a[i] = CmePriceLevel();\<close>\<close>

function clear_from :: "CmePriceLevel list \<Rightarrow> nat \<Rightarrow> CmePriceLevel list" where
  "clear_from a i =
     (if i < CME_MAX_DEPTH then clear_from (a[i := CmePriceLevel0]) (i + 1) else a)"
  by pat_completeness auto
termination
  by (relation "measure (\<lambda>(a, i). CME_MAX_DEPTH - i)") auto

declare clear_from.simps [simp del]

subsection \<open>\<open>applyBid\<close>, \<open>applyAsk\<close>, \<open>recordTrade\<close>, \<open>applyUpdate\<close>\<close>

text \<open>The \<open>switch\<close> has no default: an action byte above 5 leaves the book as it is.\<close>

definition applyBid ::
  "CmeOrderBook \<Rightarrow> u8 \<Rightarrow> u8 \<Rightarrow> i64 \<Rightarrow> i32 \<Rightarrow> u8 \<Rightarrow> CmeOrderBook" where
  "applyBid b level action px qty orders =
     (if level = 0 \<or> unat level > CME_MAX_DEPTH then b
      else let idx = unat level - 1 in
        if action = New then
          b\<lparr>bids := (shift_down (bids b) idx (CME_MAX_DEPTH - 1))
                       [idx := CmePriceLevel3 px qty orders],
            bid_count := (if bid_count b < CME_MAX_DEPTH then bid_count b + 1
                          else bid_count b)\<rparr>
        else if action = Change then
          b\<lparr>bids := (bids b)[idx := CmePriceLevel3 px qty orders]\<rparr>
        else if action = Delete then
          b\<lparr>bids := (shift_up (bids b) idx)[CME_MAX_DEPTH - 1 := CmePriceLevel0],
            bid_count := (if bid_count b > 0 then bid_count b - 1 else bid_count b)\<rparr>
        else if action = DeleteThru then
          b\<lparr>bids := clear_thru (bids b) idx 0, bid_count := 0\<rparr>
        else if action = DeleteFrom then
          b\<lparr>bids := clear_from (bids b) idx, bid_count := idx\<rparr>
        else if action = Overlay then
          b\<lparr>bids := (bids b)[idx := CmePriceLevel3 px qty orders],
            bid_count := (if idx + 1 > bid_count b then idx + 1 else bid_count b)\<rparr>
        else b)"

definition applyAsk ::
  "CmeOrderBook \<Rightarrow> u8 \<Rightarrow> u8 \<Rightarrow> i64 \<Rightarrow> i32 \<Rightarrow> u8 \<Rightarrow> CmeOrderBook" where
  "applyAsk b level action px qty orders =
     (if level = 0 \<or> unat level > CME_MAX_DEPTH then b
      else let idx = unat level - 1 in
        if action = New then
          b\<lparr>asks := (shift_down (asks b) idx (CME_MAX_DEPTH - 1))
                       [idx := CmePriceLevel3 px qty orders],
            ask_count := (if ask_count b < CME_MAX_DEPTH then ask_count b + 1
                          else ask_count b)\<rparr>
        else if action = Change then
          b\<lparr>asks := (asks b)[idx := CmePriceLevel3 px qty orders]\<rparr>
        else if action = Delete then
          b\<lparr>asks := (shift_up (asks b) idx)[CME_MAX_DEPTH - 1 := CmePriceLevel0],
            ask_count := (if ask_count b > 0 then ask_count b - 1 else ask_count b)\<rparr>
        else if action = DeleteThru then
          b\<lparr>asks := clear_thru (asks b) idx 0, ask_count := 0\<rparr>
        else if action = DeleteFrom then
          b\<lparr>asks := clear_from (asks b) idx, ask_count := idx\<rparr>
        else if action = Overlay then
          b\<lparr>asks := (asks b)[idx := CmePriceLevel3 px qty orders],
            ask_count := (if idx + 1 > ask_count b then idx + 1 else ask_count b)\<rparr>
        else b)"

text \<open>\<open>total_volume_ += static_cast<uint64_t>(quantity)\<close>: the signed 32-bit
  quantity is sign-extended to 64 bits, and the sum wraps.\<close>

definition recordTrade :: "CmeOrderBook \<Rightarrow> i64 \<Rightarrow> i32 \<Rightarrow> CmeOrderBook" where
  "recordTrade b px qty =
     b\<lparr>last_trade_price := px, last_trade_qty := qty,
       total_volume := total_volume b + scast qty\<rparr>"

definition applyUpdate :: "CmeOrderBook \<Rightarrow> MDIncrementalRefreshEntry \<Rightarrow> CmeOrderBook" where
  "applyUpdate b entry =
     (let action = md_update_action entry;
          type = md_entry_type entry;
          b1 = (if type = Bid \<or> type = ImpliedBid then
                  applyBid b (md_price_level entry) action (md_entry_px entry)
                    (md_entry_size entry) (number_of_orders entry)
                else if type = Offer \<or> type = ImpliedOffer then
                  applyAsk b (md_price_level entry) action (md_entry_px entry)
                    (md_entry_size entry) (number_of_orders entry)
                else if type = Trade then
                  recordTrade b (md_entry_px entry) (md_entry_size entry)
                else b)
      in if rpt_seq entry > last_rpt_seq b1 then b1\<lparr>last_rpt_seq := rpt_seq entry\<rparr>
         else b1)"

subsection \<open>\<open>applySnapshot\<close>\<close>

text \<open>One iteration of the loop over the snapshot entries, and the loop.  The pointer
  and count of the source are the list of the \<open>count\<close> entries.\<close>

definition applySnapshot_step :: "CmeOrderBook \<Rightarrow> MDSnapshotEntry \<Rightarrow> CmeOrderBook" where
  "applySnapshot_step b entry =
     (let type = se_md_entry_type entry in
      if se_md_price_level entry = 0 \<or> unat (se_md_price_level entry) > CME_MAX_DEPTH
      then b
      else let idx = unat (se_md_price_level entry) - 1 in
        if type = Bid then
          b\<lparr>bids := (bids b)[idx := CmePriceLevel3 (se_md_entry_px entry)
                        (se_md_entry_size entry) (se_number_of_orders entry)],
            bid_count := (if idx + 1 > bid_count b then idx + 1 else bid_count b)\<rparr>
        else if type = Offer then
          b\<lparr>asks := (asks b)[idx := CmePriceLevel3 (se_md_entry_px entry)
                        (se_md_entry_size entry) (se_number_of_orders entry)],
            ask_count := (if idx + 1 > ask_count b then idx + 1 else ask_count b)\<rparr>
        else b)"

fun applySnapshot_loop :: "CmeOrderBook \<Rightarrow> MDSnapshotEntry list \<Rightarrow> CmeOrderBook" where
  "applySnapshot_loop b [] = b"
| "applySnapshot_loop b (entry # entries) =
     applySnapshot_loop (applySnapshot_step b entry) entries"

definition applySnapshot :: "CmeOrderBook \<Rightarrow> MDSnapshotEntry list \<Rightarrow> CmeOrderBook" where
  "applySnapshot b entries = applySnapshot_loop (clear b) entries"

subsection \<open>\<open>getSnapshot\<close> (the common output format of market\_data.h)\<close>

record PriceLevel =
  pl_price :: u32
  pl_quantity :: u32
  pl_order_count :: u32

record BookSide =
  levels :: "PriceLevel list"
  count :: u8

record OrderBookSnapshot =
  snap_symbol :: "u8 list"
  snap_timestamp :: u64
  snap_sequence :: u64
  snap_bids :: BookSide
  snap_asks :: BookSide
  snap_last_price :: u32
  snap_last_quantity :: u32
  snap_total_volume :: u64

definition PriceLevel0 :: PriceLevel where
  "PriceLevel0 = \<lparr>pl_price = 0, pl_quantity = 0, pl_order_count = 0\<rparr>"

text \<open>A C string is the list of its bytes before the terminating NUL.\<close>

definition getSymbolName :: "u32 \<Rightarrow> u8 list" where
  "getSymbolName sid =
     (if sid = 1001 then map of_char ''ESH26''
      else if sid = 1002 then map of_char ''NQM26''
      else if sid = 1003 then map of_char ''CLK26''
      else if sid = 1004 then map of_char ''GCZ26''
      else map of_char ''UNKNOWN'')"

text \<open>\<open>strncpy(dst, src, n)\<close> writes exactly \<open>n\<close> bytes: the string up to its
  NUL, cut at \<open>n\<close>, then NUL padding.\<close>

definition strncpy :: "u8 list \<Rightarrow> nat \<Rightarrow> u8 list" where
  "strncpy src n = take n (takeWhile (\<lambda>c. c \<noteq> 0) src @ replicate n 0)"

text \<open>One side of the snapshot: \<open>snap = {}\<close> zeroes all ten levels, the loop fills
  the first \<open>count\<close> of them.\<close>

definition convertLevel :: "CmePriceLevel \<Rightarrow> PriceLevel" where
  "convertLevel l = \<lparr>pl_price = cmeToFixedPrice (price l),
                      pl_quantity = quantity l,
                      pl_order_count = ucast (order_count l)\<rparr>"

definition convertSide :: "CmePriceLevel list \<Rightarrow> nat \<Rightarrow> BookSide" where
  "convertSide a cnt =
     (let n = min cnt CME_MAX_DEPTH in
      \<lparr>levels = map (\<lambda>i. if i < n then convertLevel (a ! i) else PriceLevel0)
                    [0..<CME_MAX_DEPTH],
       count = of_nat n\<rparr>)"

definition getSnapshot :: "CmeOrderBook \<Rightarrow> OrderBookSnapshot" where
  "getSnapshot b =
     \<lparr>snap_symbol = strncpy (getSymbolName (book_security_id b)) 7 @ [0],
      snap_timestamp = 0,
      snap_sequence = ucast (last_rpt_seq b),
      snap_bids = convertSide (bids b) (bid_count b),
      snap_asks = convertSide (asks b) (ask_count b),
      snap_last_price = cmeToFixedPrice (last_trade_price b),
      snap_last_quantity = last_trade_qty b,
      snap_total_volume = total_volume b\<rparr>"

section \<open>Book states and properties\<close>

text \<open>The events that change one book: an applied incremental entry, and a snapshot
  application (\<open>CmeOrderBookManager::applySnapshot\<close> applies the entries and then sets
  \<open>last_rpt_seq\<close>).\<close>

datatype book_event =
    Incremental MDIncrementalRefreshEntry
  | Snapshot "MDSnapshotEntry list" u32

fun apply_event :: "CmeOrderBook \<Rightarrow> book_event \<Rightarrow> CmeOrderBook" where
  "apply_event b (Incremental entry) = applyUpdate b entry"
| "apply_event b (Snapshot entries seq) = (applySnapshot b entries)\<lparr>last_rpt_seq := seq\<rparr>"

fun apply_events :: "CmeOrderBook \<Rightarrow> book_event list \<Rightarrow> CmeOrderBook" where
  "apply_events b [] = b"
| "apply_events b (ev # evs) = apply_events (apply_event b ev) evs"

text \<open>Slots at indices at or beyond the count are zero.\<close>

definition zero_beyond :: "CmePriceLevel list \<Rightarrow> nat \<Rightarrow> bool" where
  "zero_beyond a cnt = (\<forall>i \<in> {cnt..<CME_MAX_DEPTH}. a ! i = CmePriceLevel0)"

definition slots_beyond_count_zero :: "CmeOrderBook \<Rightarrow> bool" where
  "slots_beyond_count_zero b =
     (zero_beyond (bids b) (bid_count b) \<and> zero_beyond (asks b) (ask_count b))"

definition arrays_ok :: "CmeOrderBook \<Rightarrow> bool" where
  "arrays_ok b = (length (bids b) = CME_MAX_DEPTH \<and> length (asks b) = CME_MAX_DEPTH)"

text \<open>An incremental entry fits the occupied prefix of the ladder it addresses: New
  inserts at a level of at most count + 1, Change and Delete address an occupied level,
  DeleteThru reaches the last occupied level.  Levels outside 1..10 are ignored by the
  book and fit trivially, as do DeleteFrom, Overlay, unknown actions and entries that
  address no ladder.\<close>

definition level_fits :: "nat \<Rightarrow> u8 \<Rightarrow> u8 \<Rightarrow> bool" where
  "level_fits cnt action level =
     (level = 0 \<or> unat level > CME_MAX_DEPTH \<or>
      (let idx = unat level - 1 in
         if action = New then idx \<le> cnt
         else if action = Change \<or> action = Delete then idx < cnt
         else if action = DeleteThru then cnt \<le> idx + 1
         else True))"

definition entry_fits :: "CmeOrderBook \<Rightarrow> MDIncrementalRefreshEntry \<Rightarrow> bool" where
  "entry_fits b entry =
     (let type = md_entry_type entry in
      if type = Bid \<or> type = ImpliedBid
      then level_fits (bid_count b) (md_update_action entry) (md_price_level entry)
      else if type = Offer \<or> type = ImpliedOffer
      then level_fits (ask_count b) (md_update_action entry) (md_price_level entry)
      else True)"

fun event_fits :: "CmeOrderBook \<Rightarrow> book_event \<Rightarrow> bool" where
  "event_fits b (Incremental entry) = entry_fits b entry"
| "event_fits b (Snapshot entries seq) = True"

fun events_fit :: "CmeOrderBook \<Rightarrow> book_event list \<Rightarrow> bool" where
  "events_fit b [] = True"
| "events_fit b (ev # evs) = (event_fits b ev \<and> events_fit (apply_event b ev) evs)"

text \<open>The six actions on one ladder, as a function of the array and its count:
  the common body of \<open>applyBid\<close> and \<open>applyAsk\<close>, used in the proofs.\<close>

definition ladder_step ::
  "CmePriceLevel list \<times> nat \<Rightarrow> u8 \<Rightarrow> u8 \<Rightarrow> CmePriceLevel \<Rightarrow> CmePriceLevel list \<times> nat" where
  "ladder_step s level action lv =
     (let a = fst s; cnt = snd s in
      if level = 0 \<or> unat level > CME_MAX_DEPTH then s
      else let idx = unat level - 1 in
        if action = New then
          ((shift_down a idx (CME_MAX_DEPTH - 1))[idx := lv],
           if cnt < CME_MAX_DEPTH then cnt + 1 else cnt)
        else if action = Change then (a[idx := lv], cnt)
        else if action = Delete then
          ((shift_up a idx)[CME_MAX_DEPTH - 1 := CmePriceLevel0],
           if cnt > 0 then cnt - 1 else cnt)
        else if action = DeleteThru then (clear_thru a idx 0, 0)
        else if action = DeleteFrom then (clear_from a idx, idx)
        else if action = Overlay then (a[idx := lv], if idx + 1 > cnt then idx + 1 else cnt)
        else s)"

text \<open>Test data: incremental entries for instrument 1001, and the book of
  Scenario C whose bids occupy positions 1 to 5.\<close>

definition mk_entry ::
  "u32 \<Rightarrow> u8 \<Rightarrow> u8 \<Rightarrow> u8 \<Rightarrow> i64 \<Rightarrow> i32 \<Rightarrow> u8 \<Rightarrow> MDIncrementalRefreshEntry" where
  "mk_entry seq type action level px qty orders =
     \<lparr>md_entry_px = px, md_entry_size = qty, security_id = 1001, rpt_seq = seq,
      md_entry_type = type, md_update_action = action, md_price_level = level,
      number_of_orders = orders\<rparr>"

definition five_bids :: "MDIncrementalRefreshEntry list" where
  "five_bids =
     [mk_entry 1 Bid New 1 500 5 1, mk_entry 2 Bid New 2 400 5 1,
      mk_entry 3 Bid New 3 300 5 1, mk_entry 4 Bid New 4 200 5 1,
      mk_entry 5 Bid New 5 100 5 1]"

definition book5 :: CmeOrderBook where
  "book5 = apply_events (CmeOrderBook_new 1001) (map Incremental five_bids)"

definition scenario_events :: "book_event list" where
  "scenario_events =
     map Incremental five_bids @
     [Incremental (mk_entry 6 Bid Change 1 500 7 2),
      Incremental (mk_entry 7 Bid Delete 2 0 0 0),
      Incremental (mk_entry 8 Offer Overlay 3 900 4 1),
      Snapshot [\<lparr>se_md_entry_px = 100, se_md_entry_size = 3, se_md_entry_type = Bid,
                 se_md_price_level = 2, se_number_of_orders = 1, se_padding = 0\<rparr>] 10,
      Incremental (mk_entry 11 Bid DeleteFrom 2 0 0 0),
      Incremental (mk_entry 12 Bid DeleteThru 1 0 0 0)]"

text \<open>A book holding a negative bid price and a negative last-trade price.\<close>

definition book_neg :: CmeOrderBook where
  "book_neg =
     applyUpdate (applyUpdate (CmeOrderBook_new 1001) (mk_entry 1 Bid New 1 (- 1500) 5 1))
       (mk_entry 2 Trade New 0 (- 2999) 1 0)"

definition snap_entry :: "u8 \<Rightarrow> u8 \<Rightarrow> i64 \<Rightarrow> i32 \<Rightarrow> u8 \<Rightarrow> MDSnapshotEntry" where
  "snap_entry type level px qty orders =
     \<lparr>se_md_entry_px = px, se_md_entry_size = qty, se_md_entry_type = type,
      se_md_price_level = level, se_number_of_orders = orders, se_padding = 0\<rparr>"

section \<open>The published message (l2\_sbe\_messages.h)\<close>

text \<open>
  The structs are packed and little-endian: a field of \<open>n\<close> bytes is the list of its
  bytes, least significant first, and a buffer is a list of bytes.
\<close>

definition le_bytes :: "nat \<Rightarrow> 'a::len word \<Rightarrow> u8 list" where
  "le_bytes n w = map (\<lambda>i. ucast (drop_bit (8 * i) w)) [0..<n]"

definition le_word :: "u8 list \<Rightarrow> 'a::len word" where
  "le_word bs = word_of_int (horner_sum uint (2 ^ 8) bs)"

definition slice :: "u8 list \<Rightarrow> nat \<Rightarrow> nat \<Rightarrow> u8 list" where
  "slice buf off n = take n (drop off buf)"

definition SCHEMA_ID :: u16 where "SCHEMA_ID = 1"
definition SCHEMA_VERSION :: u16 where "SCHEMA_VERSION = 1"
definition TEMPLATE_L2_SNAPSHOT :: u16 where "TEMPLATE_L2_SNAPSHOT = 2"
definition MAX_LEVELS :: u8 where "MAX_LEVELS = 10"

abbreviation (input) sizeof_MessageHeader :: nat where "sizeof_MessageHeader \<equiv> 8"
abbreviation (input) sizeof_GroupHeader :: nat where "sizeof_GroupHeader \<equiv> 3"
abbreviation (input) sizeof_PriceLevelEntry :: nat where "sizeof_PriceLevelEntry \<equiv> 15"
abbreviation (input) sizeof_L2SnapshotRoot :: nat where "sizeof_L2SnapshotRoot \<equiv> 46"

record PriceLevelEntry =
  ple_level :: u8
  ple_price :: i64
  ple_quantity :: u32
  ple_numOrders :: u16

definition MessageHeader_bytes :: "u16 \<Rightarrow> u16 \<Rightarrow> u16 \<Rightarrow> u16 \<Rightarrow> u8 list" where
  "MessageHeader_bytes blockLength templateId schemaId version =
     le_bytes 2 blockLength @ le_bytes 2 templateId @ le_bytes 2 schemaId @ le_bytes 2 version"

definition GroupHeader_bytes :: "u16 \<Rightarrow> u8 \<Rightarrow> u8 list" where
  "GroupHeader_bytes blockLength numInGroup = le_bytes 2 blockLength @ [numInGroup]"

definition PriceLevelEntry_bytes :: "PriceLevelEntry \<Rightarrow> u8 list" where
  "PriceLevelEntry_bytes e =
     [ple_level e] @ le_bytes 8 (ple_price e) @ le_bytes 4 (ple_quantity e)
       @ le_bytes 2 (ple_numOrders e)"

text \<open>The root block: \<open>memset\<close> and \<open>strncpy(root->symbol, symbol, 8)\<close> leave the
  first eight bytes of the C string, NUL-padded.\<close>

definition L2SnapshotRoot_bytes ::
  "u8 list \<Rightarrow> u64 \<Rightarrow> u64 \<Rightarrow> i64 \<Rightarrow> u32 \<Rightarrow> u64 \<Rightarrow> u8 \<Rightarrow> u8 \<Rightarrow> u8 list" where
  "L2SnapshotRoot_bytes symbol timestamp sequenceNumber lastTradePrice lastTradeQty
       totalVolume bidCount askCount =
     strncpy symbol 8 @ le_bytes 8 timestamp @ le_bytes 8 sequenceNumber
       @ le_bytes 8 lastTradePrice @ le_bytes 4 lastTradeQty @ le_bytes 8 totalVolume
       @ [bidCount, askCount]"

definition calcL2SnapshotSize :: "u8 \<Rightarrow> u8 \<Rightarrow> nat" where
  "calcL2SnapshotSize numBids numAsks =
     sizeof_MessageHeader + sizeof_L2SnapshotRoot
       + sizeof_GroupHeader + unat numBids * sizeof_PriceLevelEntry
       + sizeof_GroupHeader + unat numAsks * sizeof_PriceLevelEntry"

text \<open>
  \<open>L2SnapshotEncoder::encode\<close>.  The encoder is built on a buffer and its size; the
  result is the return value, the buffer and \<open>offset_\<close> (the encoded length; 0 as set
  by the constructor when encoding fails).  The writes of the source are consecutive
  from offset 0 (header, root, group header, \<open>numBids\<close> entries, group header,
  \<open>numAsks\<close> entries, \<open>offset_\<close> advancing by the size of each), so together they
  overwrite a prefix of the buffer with the concatenation below.  The entry arrays are
  read at the indices below \<open>numBids\<close> and \<open>numAsks\<close>; the caller owes arrays of at
  least that length.
\<close>

definition L2Snapshot_message ::
  "u8 list \<Rightarrow> u64 \<Rightarrow> u64 \<Rightarrow> i64 \<Rightarrow> u32 \<Rightarrow> u64 \<Rightarrow> u8 \<Rightarrow> u8 \<Rightarrow>
   PriceLevelEntry list \<Rightarrow> u8 \<Rightarrow> PriceLevelEntry list \<Rightarrow> u8 \<Rightarrow> u8 list" where
  "L2Snapshot_message symbol timestamp sequenceNumber lastTradePrice lastTradeQty
       totalVolume bidCount askCount bids_in numBids asks_in numAsks =
     MessageHeader_bytes (of_nat sizeof_L2SnapshotRoot) TEMPLATE_L2_SNAPSHOT SCHEMA_ID
         SCHEMA_VERSION
       @ L2SnapshotRoot_bytes symbol timestamp sequenceNumber lastTradePrice lastTradeQty
           totalVolume bidCount askCount
       @ GroupHeader_bytes (of_nat sizeof_PriceLevelEntry) numBids
       @ concat (map (\<lambda>i. PriceLevelEntry_bytes (bids_in ! i)) [0..<unat numBids])
       @ GroupHeader_bytes (of_nat sizeof_PriceLevelEntry) numAsks
       @ concat (map (\<lambda>i. PriceLevelEntry_bytes (asks_in ! i)) [0..<unat numAsks])"

definition encode ::
  "u8 list \<Rightarrow> u8 list \<Rightarrow> u64 \<Rightarrow> u64 \<Rightarrow> i64 \<Rightarrow> u32 \<Rightarrow> u64 \<Rightarrow> u8 \<Rightarrow> u8 \<Rightarrow>
   PriceLevelEntry list \<Rightarrow> u8 \<Rightarrow> PriceLevelEntry list \<Rightarrow> u8 \<Rightarrow> bool \<times> u8 list \<times> nat" where
  "encode buffer symbol timestamp sequenceNumber lastTradePrice lastTradeQty
       totalVolume bidCount askCount bids_in numBids asks_in numAsks =
     (let requiredSize = calcL2SnapshotSize numBids numAsks in
      if length buffer < requiredSize then (False, buffer, 0)
      else
        let msg = L2Snapshot_message symbol timestamp sequenceNumber lastTradePrice
                    lastTradeQty totalVolume bidCount askCount bids_in numBids asks_in numAsks
        in (True, msg @ drop (length msg) buffer, length msg))"

text \<open>
  \<open>L2SnapshotDecoder\<close>: the constructor runs \<open>parse\<close>, which sets the five
  pointers as far as the length allows.  A pointer is the offset it points to in the
  buffer, \<open>None\<close> for \<open>nullptr\<close>.
\<close>

record L2SnapshotDecoder =
  buffer_ptr :: "u8 list"
  length_field :: nat
  root_ptr :: "nat option"
  bidsHeader_ptr :: "nat option"
  bids_ptr :: "nat option"
  asksHeader_ptr :: "nat option"
  asks_ptr :: "nat option"

definition numInGroup_at :: "u8 list \<Rightarrow> nat \<Rightarrow> u8" where
  "numInGroup_at buf off = buf ! (off + 2)"

definition parse :: "u8 list \<Rightarrow> nat \<Rightarrow> L2SnapshotDecoder" where
  "parse buf len =
     (let d0 = \<lparr>buffer_ptr = buf, length_field = len, root_ptr = None,
                bidsHeader_ptr = None, bids_ptr = None, asksHeader_ptr = None,
                asks_ptr = None\<rparr>
      in if len < sizeof_MessageHeader + sizeof_L2SnapshotRoot then d0
      else
        let offset = sizeof_MessageHeader;
            d1 = d0\<lparr>root_ptr := Some offset\<rparr>;
            offset = offset + sizeof_L2SnapshotRoot
        in if offset + sizeof_GroupHeader > len then d1
        else
          let d2 = d1\<lparr>bidsHeader_ptr := Some offset\<rparr>;
              nb = unat (numInGroup_at buf offset);
              offset = offset + sizeof_GroupHeader
          in if offset + nb * sizeof_PriceLevelEntry > len then d2
          else
            let d3 = d2\<lparr>bids_ptr := Some offset\<rparr>;
                offset = offset + nb * sizeof_PriceLevelEntry
            in if offset + sizeof_GroupHeader > len then d3
            else
              let d4 = d3\<lparr>asksHeader_ptr := Some offset\<rparr>;
                  na = unat (numInGroup_at buf offset);
                  offset = offset + sizeof_GroupHeader
              in if offset + na * sizeof_PriceLevelEntry > len then d4
              else d4\<lparr>asks_ptr := Some offset\<rparr>)"

definition templateId :: "L2SnapshotDecoder \<Rightarrow> u16" where
  "templateId d = le_word (slice (buffer_ptr d) 2 2)"

definition schemaId :: "L2SnapshotDecoder \<Rightarrow> u16" where
  "schemaId d = le_word (slice (buffer_ptr d) 4 2)"

definition isValid :: "L2SnapshotDecoder \<Rightarrow> bool" where
  "isValid d =
     ((\<not> length_field d < sizeof_MessageHeader \<and> schemaId d = SCHEMA_ID)
      \<and> templateId d = TEMPLATE_L2_SNAPSHOT \<and> root_ptr d \<noteq> None)"

text \<open>The accessors of the root dereference \<open>root_\<close>; they are meaningful when it is
  set, and are given the offset.\<close>

definition root_field :: "L2SnapshotDecoder \<Rightarrow> nat \<Rightarrow> nat \<Rightarrow> u8 list" where
  "root_field d off n = slice (buffer_ptr d) (the (root_ptr d) + off) n"

definition symbol :: "L2SnapshotDecoder \<Rightarrow> u8 list" where
  "symbol d = root_field d 0 8"
definition timestamp :: "L2SnapshotDecoder \<Rightarrow> u64" where
  "timestamp d = le_word (root_field d 8 8)"
definition sequenceNumber :: "L2SnapshotDecoder \<Rightarrow> u64" where
  "sequenceNumber d = le_word (root_field d 16 8)"
definition lastTradePrice :: "L2SnapshotDecoder \<Rightarrow> i64" where
  "lastTradePrice d = le_word (root_field d 24 8)"
definition lastTradeQty :: "L2SnapshotDecoder \<Rightarrow> u32" where
  "lastTradeQty d = le_word (root_field d 32 4)"
definition totalVolume :: "L2SnapshotDecoder \<Rightarrow> u64" where
  "totalVolume d = le_word (root_field d 36 8)"
definition bidCount :: "L2SnapshotDecoder \<Rightarrow> u8" where
  "bidCount d = le_word (root_field d 44 1)"
definition askCount :: "L2SnapshotDecoder \<Rightarrow> u8" where
  "askCount d = le_word (root_field d 45 1)"

definition numBids :: "L2SnapshotDecoder \<Rightarrow> u8" where
  "numBids d = (case bidsHeader_ptr d of None \<Rightarrow> 0
                | Some h \<Rightarrow> numInGroup_at (buffer_ptr d) h)"

definition numAsks :: "L2SnapshotDecoder \<Rightarrow> u8" where
  "numAsks d = (case asksHeader_ptr d of None \<Rightarrow> 0
                | Some h \<Rightarrow> numInGroup_at (buffer_ptr d) h)"

definition PriceLevelEntry_at :: "u8 list \<Rightarrow> nat \<Rightarrow> PriceLevelEntry" where
  "PriceLevelEntry_at buf off =
     \<lparr>ple_level = le_word (slice buf off 1),
      ple_price = le_word (slice buf (off + 1) 8),
      ple_quantity = le_word (slice buf (off + 9) 4),
      ple_numOrders = le_word (slice buf (off + 13) 2)\<rparr>"

text \<open>\<open>getBid\<close> and \<open>getAsk\<close> return a pointer: \<open>nullptr\<close> when the index is
  not below the group's count, else \<open>&bids_[index]\<close>.  When \<open>parse\<close> stopped
  before setting \<open>bids_\<close>, that address is computed from a null pointer.\<close>

datatype entry_ptr = Nullptr | Entry PriceLevelEntry | FromNull

definition getBid :: "L2SnapshotDecoder \<Rightarrow> u8 \<Rightarrow> entry_ptr" where
  "getBid d index =
     (if index \<ge> numBids d then Nullptr
      else case bids_ptr d of None \<Rightarrow> FromNull
           | Some off \<Rightarrow>
               Entry (PriceLevelEntry_at (buffer_ptr d)
                        (off + unat index * sizeof_PriceLevelEntry)))"

definition getAsk :: "L2SnapshotDecoder \<Rightarrow> u8 \<Rightarrow> entry_ptr" where
  "getAsk d index =
     (if index \<ge> numAsks d then Nullptr
      else case asks_ptr d of None \<Rightarrow> FromNull
           | Some off \<Rightarrow>
               Entry (PriceLevelEntry_at (buffer_ptr d)
                        (off + unat index * sizeof_PriceLevelEntry)))"

definition priceToSbe :: "u32 \<Rightarrow> i64" where
  "priceToSbe fixedPrice4 = ucast fixedPrice4 * 1000"

definition priceFromSbe :: "i64 \<Rightarrow> u32" where
  "priceFromSbe sbePrice = ucast (sdiv64 sbePrice 1000)"

section \<open>The recovery state machine (recovery\_state.h, recovery\_state.cpp)\<close>

datatype RecoveryState = Normal | GapDetected | Recovering

record SecurityRecoveryState =
  state :: RecoveryState
  expected_rpt_seq :: u32
  last_good_rpt_seq :: u32
  snapshot_rpt_seq :: u32
  gap_detected_time :: u64
  recovery_attempts :: u32
  buffered_updates :: "(u32 \<times> u8 list) list"

text \<open>The default member initialisers.\<close>

definition SecurityRecoveryState0 :: SecurityRecoveryState where
  "SecurityRecoveryState0 =
     \<lparr>state = Normal, expected_rpt_seq = 1, last_good_rpt_seq = 0, snapshot_rpt_seq = 0,
      gap_detected_time = 0, recovery_attempts = 0, buffered_updates = []\<rparr>"

record Stats =
  gaps_detected :: u64
  recoveries_completed :: u64
  messages_dropped :: u64
  messages_buffered :: u64

text \<open>
  An \<open>unordered_map\<close> is an association list with one pair for each key:
  \<open>find\<close> is \<open>map_of\<close>, \<open>operator[]\<close> and \<open>emplace\<close> go through
  \<open>AList.update\<close>, and iteration follows the list (the order of the source's iteration
  is unspecified; no property below depends on it).
\<close>

record RecoveryManager =
  states :: "(u32 \<times> SecurityRecoveryState) list"
  stats :: Stats

definition RecoveryManager0 :: RecoveryManager where
  "RecoveryManager0 =
     \<lparr>states = [],
      stats = \<lparr>gaps_detected = 0, recoveries_completed = 0, messages_dropped = 0,
               messages_buffered = 0\<rparr>\<rparr>"

text \<open>\<open>states_[security_id]\<close>: the stored record, or a fresh default one.\<close>

definition states_at :: "RecoveryManager \<Rightarrow> u32 \<Rightarrow> SecurityRecoveryState" where
  "states_at rm sid =
     (case map_of (states rm) sid of None \<Rightarrow> SecurityRecoveryState0 | Some st \<Rightarrow> st)"

definition set_state :: "RecoveryManager \<Rightarrow> u32 \<Rightarrow> SecurityRecoveryState \<Rightarrow> RecoveryManager" where
  "set_state rm sid st = rm\<lparr>states := AList.update sid st (states rm)\<rparr>"

definition initSecurity :: "RecoveryManager \<Rightarrow> u32 \<Rightarrow> u32 \<Rightarrow> RecoveryManager" where
  "initSecurity rm sid initial_seq =
     set_state rm sid
       ((states_at rm sid)
          \<lparr>expected_rpt_seq := initial_seq,
           last_good_rpt_seq := (if initial_seq > 0 then initial_seq - 1 else 0),
           state := Normal\<rparr>)"

definition drop_message :: "RecoveryManager \<Rightarrow> RecoveryManager" where
  "drop_message rm = rm\<lparr>stats := (stats rm)\<lparr>messages_dropped := messages_dropped (stats rm) + 1\<rparr>\<rparr>"

definition onIncrementalMessage :: "RecoveryManager \<Rightarrow> u32 \<Rightarrow> u32 \<Rightarrow> bool \<times> RecoveryManager" where
  "onIncrementalMessage rm sid seq =
     (case map_of (states rm) sid of
        None \<Rightarrow> (True, initSecurity rm sid (seq + 1))
      | Some st \<Rightarrow>
          (case state st of
             Normal \<Rightarrow>
               if seq \<ge> last_good_rpt_seq st \<and> seq \<le> expected_rpt_seq st then
                 (True,
                  if seq > last_good_rpt_seq st
                  then set_state rm sid (st\<lparr>expected_rpt_seq := seq + 1,
                                             last_good_rpt_seq := seq\<rparr>)
                  else rm)
               else if seq < last_good_rpt_seq st then (False, drop_message rm)
               else
                 (False,
                  (set_state rm sid
                     (st\<lparr>state := GapDetected, gap_detected_time := 0,
                         recovery_attempts := recovery_attempts st + 1\<rparr>))
                    \<lparr>stats := (stats rm)\<lparr>gaps_detected := gaps_detected (stats rm) + 1\<rparr>\<rparr>)
           | GapDetected \<Rightarrow> (False, drop_message rm)
           | Recovering \<Rightarrow> (False, drop_message rm)))"

definition onSnapshotMessage ::
  "RecoveryManager \<Rightarrow> u32 \<Rightarrow> u32 \<Rightarrow> u32 \<Rightarrow> bool \<times> RecoveryManager" where
  "onSnapshotMessage rm sid snapshot_seq last_incr_seq =
     (case map_of (states rm) sid of
        None \<Rightarrow> (True, initSecurity rm sid (snapshot_seq + 1))
      | Some st \<Rightarrow>
          (case state st of
             Normal \<Rightarrow> (False, rm)
           | GapDetected \<Rightarrow>
               (True, set_state rm sid (st\<lparr>state := Recovering,
                                            snapshot_rpt_seq := snapshot_seq\<rparr>))
           | Recovering \<Rightarrow>
               if snapshot_seq > snapshot_rpt_seq st
               then (True, set_state rm sid (st\<lparr>snapshot_rpt_seq := snapshot_seq\<rparr>))
               else (False, rm)))"

definition completeRecovery :: "RecoveryManager \<Rightarrow> u32 \<Rightarrow> u32 \<Rightarrow> RecoveryManager" where
  "completeRecovery rm sid seq =
     (case map_of (states rm) sid of
        None \<Rightarrow> rm
      | Some st \<Rightarrow>
          (set_state rm sid
             (st\<lparr>state := Normal, expected_rpt_seq := seq + 1, last_good_rpt_seq := seq,
                 buffered_updates := []\<rparr>))
            \<lparr>stats := (stats rm)\<lparr>recoveries_completed :=
                                    recoveries_completed (stats rm) + 1\<rparr>\<rparr>)"

definition resetExpectedSeq :: "RecoveryManager \<Rightarrow> u32 \<Rightarrow> u32 \<Rightarrow> RecoveryManager" where
  "resetExpectedSeq rm sid seq =
     set_state rm sid
       ((states_at rm sid)
          \<lparr>expected_rpt_seq := seq,
           last_good_rpt_seq := (if seq > 0 then seq - 1 else 0),
           state := Normal,
           buffered_updates := []\<rparr>)"

definition needsRecovery :: "RecoveryManager \<Rightarrow> bool" where
  "needsRecovery rm = list_ex (\<lambda>pair. state (snd pair) \<noteq> Normal) (states rm)"

definition getState :: "RecoveryManager \<Rightarrow> u32 \<Rightarrow> RecoveryState" where
  "getState rm sid = (case map_of (states rm) sid of None \<Rightarrow> Normal | Some st \<Rightarrow> state st)"

definition getExpectedRptSeq :: "RecoveryManager \<Rightarrow> u32 \<Rightarrow> u32" where
  "getExpectedRptSeq rm sid =
     (case map_of (states rm) sid of None \<Rightarrow> 1 | Some st \<Rightarrow> expected_rpt_seq st)"

section \<open>The book manager (cme\_order\_book.cpp)\<close>

text \<open>The dirty set is a list without repetitions; draining it returns the list.\<close>

record CmeOrderBookManager =
  books :: "(u32 \<times> CmeOrderBook) list"
  dirty_securities :: "u32 list"

definition CmeOrderBookManager0 :: CmeOrderBookManager where
  "CmeOrderBookManager0 = \<lparr>books = [], dirty_securities = []\<rparr>"

text \<open>\<open>getBook\<close> returns a reference to the stored book, creating it when absent:
  the book, and the manager that now holds it.\<close>

definition getBook :: "CmeOrderBookManager \<Rightarrow> u32 \<Rightarrow> CmeOrderBook \<times> CmeOrderBookManager" where
  "getBook m sid =
     (case map_of (books m) sid of
        None \<Rightarrow> (CmeOrderBook_new sid,
                  m\<lparr>books := AList.update sid (CmeOrderBook_new sid) (books m)\<rparr>)
      | Some b \<Rightarrow> (b, m))"

definition hasBook :: "CmeOrderBookManager \<Rightarrow> u32 \<Rightarrow> bool" where
  "hasBook m sid = (map_of (books m) sid \<noteq> None)"

definition markDirty :: "CmeOrderBookManager \<Rightarrow> u32 \<Rightarrow> CmeOrderBookManager" where
  "markDirty m sid = m\<lparr>dirty_securities := List.insert sid (dirty_securities m)\<rparr>"

definition applyIncremental ::
  "CmeOrderBookManager \<Rightarrow> MDIncrementalRefreshEntry \<Rightarrow> CmeOrderBookManager" where
  "applyIncremental m entry =
     (let (book, m1) = getBook m (security_id entry);
          m2 = m1\<lparr>books := AList.update (security_id entry) (applyUpdate book entry) (books m1)\<rparr>
      in markDirty m2 (security_id entry))"

definition manager_applySnapshot ::
  "CmeOrderBookManager \<Rightarrow> u32 \<Rightarrow> MDSnapshotEntry list \<Rightarrow> u32 \<Rightarrow> CmeOrderBookManager" where
  "manager_applySnapshot m sid entries seq =
     (let (book, m1) = getBook m sid;
          book1 = applySnapshot book entries;
          book2 = book1\<lparr>last_rpt_seq := seq\<rparr>;
          m2 = m1\<lparr>books := AList.update sid book2 (books m1)\<rparr>
      in markDirty m2 sid)"

definition getDirtySecurities :: "CmeOrderBookManager \<Rightarrow> u32 list \<times> CmeOrderBookManager" where
  "getDirtySecurities m = (dirty_securities m, m\<lparr>dirty_securities := []\<rparr>)"

definition manager_clear :: "CmeOrderBookManager \<Rightarrow> CmeOrderBookManager" where
  "manager_clear m = m\<lparr>books := [], dirty_securities := []\<rparr>"

definition getAllSecurityIds :: "CmeOrderBookManager \<Rightarrow> u32 list" where
  "getAllSecurityIds m = map fst (books m)"

section \<open>The feed handler (cme\_feedhandler.h, cme\_feedhandler.cpp)\<close>

record FeedStats =
  messages_received :: u64
  messages_sent :: u64
  bytes_received :: u64
  bytes_sent :: u64
  add_orders :: u64
  delete_orders :: u64
  executions :: u64
  trades :: u64
  errors :: u64

text \<open>
  The members of the handler that the message handlers and the publisher use.  The
  datagrams handed to \<open>output_sender_->send\<close> are collected, latest last, in
  \<open>sent\<close>; console output is left out.
\<close>

record CmeFeedHandler =
  book_manager :: CmeOrderBookManager
  recovery_manager :: RecoveryManager
  output_seq :: u64
  fh_stats :: FeedStats
  send_buffer :: "u8 list"
  sent :: "u8 list list"

definition CmeFeedHandler0 :: CmeFeedHandler where
  "CmeFeedHandler0 =
     \<lparr>book_manager = CmeOrderBookManager0, recovery_manager = RecoveryManager0,
      output_seq = 0,
      fh_stats = \<lparr>messages_received = 0, messages_sent = 0, bytes_received = 0,
                  bytes_sent = 0, add_orders = 0, delete_orders = 0, executions = 0,
                  trades = 0, errors = 0\<rparr>,
      send_buffer = replicate 1500 0, sent = []\<rparr>"

definition handleSecurityDefinition :: "CmeFeedHandler \<Rightarrow> u32 \<Rightarrow> CmeFeedHandler" where
  "handleSecurityDefinition fh sid =
     fh\<lparr>book_manager := snd (getBook (book_manager fh) sid),
        recovery_manager := initSecurity (recovery_manager fh) sid 1\<rparr>"

text \<open>The body of the loop of \<open>handleIncrementalRefresh\<close>, for one entry.\<close>

definition count_entry :: "FeedStats \<Rightarrow> MDIncrementalRefreshEntry \<Rightarrow> FeedStats" where
  "count_entry st entry =
     (let st1 = (if md_update_action entry = New then st\<lparr>add_orders := add_orders st + 1\<rparr>
                 else if md_update_action entry = Delete
                 then st\<lparr>delete_orders := delete_orders st + 1\<rparr>
                 else st)
      in if md_entry_type entry = Trade then st1\<lparr>trades := trades st1 + 1\<rparr> else st1)"

definition handleIncrementalRefresh_entry ::
  "CmeFeedHandler \<Rightarrow> MDIncrementalRefreshEntry \<Rightarrow> CmeFeedHandler" where
  "handleIncrementalRefresh_entry fh entry =
     (let (apply, rm) = onIncrementalMessage (recovery_manager fh) (security_id entry)
                          (rpt_seq entry);
          fh1 = fh\<lparr>recovery_manager := rm\<rparr>
      in if apply
         then fh1\<lparr>book_manager := applyIncremental (book_manager fh1) entry,
                  fh_stats := count_entry (fh_stats fh1) entry\<rparr>
         else fh1)"

fun handleIncrementalRefresh ::
  "CmeFeedHandler \<Rightarrow> MDIncrementalRefreshEntry list \<Rightarrow> CmeFeedHandler" where
  "handleIncrementalRefresh fh [] = fh"
| "handleIncrementalRefresh fh (entry # entries) =
     handleIncrementalRefresh (handleIncrementalRefresh_entry fh entry) entries"

text \<open>The snapshot message: \<open>last_msg_seq_num_processed\<close>, \<open>security_id\<close>,
  \<open>rpt_seq\<close> and the entries of its group.\<close>

definition handleSnapshotFullRefresh ::
  "CmeFeedHandler \<Rightarrow> u32 \<Rightarrow> u32 \<Rightarrow> u32 \<Rightarrow> MDSnapshotEntry list \<Rightarrow> CmeFeedHandler" where
  "handleSnapshotFullRefresh fh last_msg_seq_num_processed sid seq entries =
     (let (apply, rm) = onSnapshotMessage (recovery_manager fh) sid seq
                          last_msg_seq_num_processed;
          fh1 = fh\<lparr>recovery_manager := rm\<rparr>
      in if apply
         then fh1\<lparr>book_manager := manager_applySnapshot (book_manager fh1) sid entries seq,
                  recovery_manager := completeRecovery rm sid seq\<rparr>
         else fh1)"

text \<open>\<open>handleChannelReset\<close>: the books are cleared first, and the loop then runs
  over the identifiers of the books the manager holds after that.\<close>

fun resetExpectedSeq_all :: "RecoveryManager \<Rightarrow> u32 list \<Rightarrow> RecoveryManager" where
  "resetExpectedSeq_all rm [] = rm"
| "resetExpectedSeq_all rm (sid # sids) = resetExpectedSeq_all (resetExpectedSeq rm sid 1) sids"

definition handleChannelReset :: "CmeFeedHandler \<Rightarrow> CmeFeedHandler" where
  "handleChannelReset fh =
     (let bm = manager_clear (book_manager fh)
      in fh\<lparr>book_manager := bm,
            recovery_manager := resetExpectedSeq_all (recovery_manager fh)
                                  (getAllSecurityIds bm)\<rparr>)"

text \<open>\<open>publishSnapshot\<close>: the levels are converted, the message is encoded into the
  send buffer, and its first \<open>encodedLength\<close> bytes are sent.\<close>

definition to_sbe_levels :: "BookSide \<Rightarrow> u8 \<Rightarrow> PriceLevelEntry list" where
  "to_sbe_levels side n =
     map (\<lambda>i. \<lparr>ple_level = of_nat i + 1,
                ple_price = priceToSbe (pl_price (levels side ! i)),
                ple_quantity = pl_quantity (levels side ! i),
                ple_numOrders = ucast (pl_order_count (levels side ! i))\<rparr>)
       [0..<unat n]"

definition publishSnapshot :: "CmeFeedHandler \<Rightarrow> OrderBookSnapshot \<Rightarrow> CmeFeedHandler" where
  "publishSnapshot fh snap =
     (let numBids = min (count (snap_bids snap)) MAX_LEVELS;
          numAsks = min (count (snap_asks snap)) MAX_LEVELS;
          bids_out = to_sbe_levels (snap_bids snap) numBids;
          asks_out = to_sbe_levels (snap_asks snap) numAsks;
          (ok, buf, encodedLength) =
             encode (send_buffer fh) (snap_symbol snap) (snap_timestamp snap)
               (snap_sequence snap) (priceToSbe (snap_last_price snap))
               (snap_last_quantity snap) (snap_total_volume snap) numBids numAsks
               bids_out numBids asks_out numAsks
      in if \<not> ok
         then fh\<lparr>send_buffer := buf,
                 fh_stats := (fh_stats fh)\<lparr>errors := errors (fh_stats fh) + 1\<rparr>\<rparr>
         else fh\<lparr>send_buffer := buf,
                 sent := sent fh @ [take encodedLength buf],
                 fh_stats := (fh_stats fh)
                   \<lparr>messages_sent := messages_sent (fh_stats fh) + 1,
                    bytes_sent := bytes_sent (fh_stats fh) + of_nat encodedLength\<rparr>\<rparr>)"

text \<open>
  \<open>publishConflatedSnapshots\<close>: the dirty set is drained, then each drained
  identifier is visited.  \<open>now\<close> is the reading of \<open>getCurrentTimeNs()\<close>.
\<close>

definition publish_one :: "u64 \<Rightarrow> CmeFeedHandler \<Rightarrow> u32 \<Rightarrow> CmeFeedHandler" where
  "publish_one now fh sid =
     (if getState (recovery_manager fh) sid = Normal then
        let (book, bm) = getBook (book_manager fh) sid;
            snap = getSnapshot book;
            snap = snap\<lparr>snap_timestamp := now\<rparr>;
            fh1 = fh\<lparr>book_manager := bm, output_seq := output_seq fh + 1\<rparr>;
            snap = snap\<lparr>snap_sequence := output_seq fh1\<rparr>
        in publishSnapshot fh1 snap
      else fh)"

fun publish_all :: "u64 \<Rightarrow> CmeFeedHandler \<Rightarrow> u32 list \<Rightarrow> CmeFeedHandler" where
  "publish_all now fh [] = fh"
| "publish_all now fh (sid # sids) = publish_all now (publish_one now fh sid) sids"

definition publishConflatedSnapshots :: "u64 \<Rightarrow> CmeFeedHandler \<Rightarrow> CmeFeedHandler" where
  "publishConflatedSnapshots now fh =
     (let (dirty, bm) = getDirtySecurities (book_manager fh)
      in publish_all now (fh\<lparr>book_manager := bm\<rparr>) dirty)"

text \<open>Test data: instrument 1001 after the entries with \<open>rpt_seq\<close> 1 and 5 (a
  gap), with instrument 1002 in step.\<close>

definition fh_gap :: CmeFeedHandler where
  "fh_gap =
     handleIncrementalRefresh CmeFeedHandler0
       [mk_entry 1 Bid New 1 500 5 1,
        (mk_entry 1 Bid New 1 700 2 1)\<lparr>security_id := 1002\<rparr>,
        (mk_entry 2 Offer New 1 800 2 1)\<lparr>security_id := 1002\<rparr>,
        mk_entry 5 Bid New 1 600 5 1]"

text \<open>Test data: a recovery manager whose instrument 1001 is in step at sequence
  \<open>0xFFFFFFFE\<close>, and one in step at sequence 4.\<close>

definition rm_edge :: RecoveryManager where
  "rm_edge = snd (onIncrementalMessage RecoveryManager0 1001 0xFFFFFFFE)"

definition rm_five :: RecoveryManager where
  "rm_five = snd (onIncrementalMessage RecoveryManager0 1001 4)"

text \<open>Test data: one bid level and the encoding of a snapshot that carries it.\<close>

definition sample_bid :: PriceLevelEntry where
  "sample_bid = \<lparr>ple_level = 1, ple_price = 45000000000, ple_quantity = 10, ple_numOrders = 3\<rparr>"

definition sample_encoded :: "bool \<times> u8 list \<times> nat" where
  "sample_encoded =
     encode (replicate 100 0) (map of_char ''ESH26'') 7 3 (- 1500) 2 9 1 0
       [sample_bid] (of_nat (length [sample_bid])) [] (of_nat (length ([] :: PriceLevelEntry list)))"

section \<open>Walking a datagram (processIncrementalPacket, processSnapshotPacket)\<close>

text \<open>
  The two packet parsers, as the sequence of what they do with the bytes at \<open>data\<close>:
  \<open>Read off n\<close> is a read of the \<open>n\<close> bytes at offset \<open>off\<close> made by the parser
  itself, \<open>Handle t off n\<close> the call of the handler of template \<open>t\<close> on the message
  of \<open>n\<close> bytes at offset \<open>off\<close>.  \<open>data\<close> is the receive buffer, which is
  longer than the datagram of \<open>len\<close> bytes read into it.  The structs are packed:
  \<open>template_id\<close> is at offset 2 of a message, \<open>entries_header.num_in_group\<close> at offset
  18 of an incremental refresh and at offset 30 of a snapshot.
\<close>

definition TEMPLATE_CHANNEL_RESET :: u16 where "TEMPLATE_CHANNEL_RESET = 4"
definition TEMPLATE_HEARTBEAT :: u16 where "TEMPLATE_HEARTBEAT = 12"
definition TEMPLATE_SECURITY_DEFINITION :: u16 where "TEMPLATE_SECURITY_DEFINITION = 27"
definition TEMPLATE_MD_INCREMENTAL_REFRESH :: u16 where "TEMPLATE_MD_INCREMENTAL_REFRESH = 32"
definition TEMPLATE_MD_SNAPSHOT_FULL_REFRESH :: u16 where
  "TEMPLATE_MD_SNAPSHOT_FULL_REFRESH = 38"

abbreviation (input) sizeof_PacketHeader :: nat where "sizeof_PacketHeader \<equiv> 12"
abbreviation (input) sizeof_SBEMessageHeader :: nat where "sizeof_SBEMessageHeader \<equiv> 8"
abbreviation (input) sizeof_SecurityDefinition :: nat where "sizeof_SecurityDefinition \<equiv> 45"
abbreviation (input) sizeof_MDIncrementalRefreshBook :: nat where
  "sizeof_MDIncrementalRefreshBook \<equiv> 19"
abbreviation (input) sizeof_MDIncrementalRefreshEntry :: nat where
  "sizeof_MDIncrementalRefreshEntry \<equiv> 24"
abbreviation (input) sizeof_MDSnapshotFullRefresh :: nat where
  "sizeof_MDSnapshotFullRefresh \<equiv> 31"
abbreviation (input) sizeof_MDSnapshotEntry :: nat where "sizeof_MDSnapshotEntry \<equiv> 16"
abbreviation (input) sizeof_ChannelReset :: nat where "sizeof_ChannelReset \<equiv> 16"
abbreviation (input) sizeof_Heartbeat :: nat where "sizeof_Heartbeat \<equiv> 16"

definition calcIncrementalSize :: "u8 \<Rightarrow> nat" where
  "calcIncrementalSize num_entries =
     sizeof_MDIncrementalRefreshBook + unat num_entries * sizeof_MDIncrementalRefreshEntry"

definition calcSnapshotSize :: "u8 \<Rightarrow> nat" where
  "calcSnapshotSize num_entries =
     sizeof_MDSnapshotFullRefresh + unat num_entries * sizeof_MDSnapshotEntry"

datatype parse_step = Read nat nat | Handle u16 nat nat

function walk_incremental :: "u8 list \<Rightarrow> nat \<Rightarrow> nat \<Rightarrow> parse_step list" where
  "walk_incremental data len offset =
     (if offset + sizeof_SBEMessageHeader \<le> len then
        let template_id = (le_word (slice data (offset + 2) 2) :: u16) in
        Read (offset + 2) 2 #
        (if template_id = TEMPLATE_SECURITY_DEFINITION then
           if offset + sizeof_SecurityDefinition \<le> len
           then Handle template_id offset sizeof_SecurityDefinition
                  # walk_incremental data len (offset + sizeof_SecurityDefinition)
           else []
         else if template_id = TEMPLATE_MD_INCREMENTAL_REFRESH then
           let msg_size = calcIncrementalSize (data ! (offset + 18)) in
           Read (offset + 18) 1 #
           (if offset + msg_size \<le> len
            then Handle template_id offset msg_size
                   # walk_incremental data len (offset + msg_size)
            else [])
         else if template_id = TEMPLATE_CHANNEL_RESET then
           if offset + sizeof_ChannelReset \<le> len
           then Handle template_id offset sizeof_ChannelReset
                  # walk_incremental data len (offset + sizeof_ChannelReset)
           else []
         else if template_id = TEMPLATE_HEARTBEAT then
           if offset + sizeof_Heartbeat \<le> len
           then Handle template_id offset sizeof_Heartbeat
                  # walk_incremental data len (offset + sizeof_Heartbeat)
           else []
         else
           let block_length = (le_word (slice data offset 2) :: u16) in
           Read offset 2 #
           walk_incremental data len (offset + sizeof_SBEMessageHeader + unat block_length))
      else [])"
  by pat_completeness auto
termination
  by (relation "measure (\<lambda>(data, len, offset). len - offset)")
     (auto simp: calcIncrementalSize_def)

declare walk_incremental.simps [simp del]

function walk_snapshot :: "u8 list \<Rightarrow> nat \<Rightarrow> nat \<Rightarrow> parse_step list" where
  "walk_snapshot data len offset =
     (if offset + sizeof_SBEMessageHeader \<le> len then
        let template_id = (le_word (slice data (offset + 2) 2) :: u16) in
        Read (offset + 2) 2 #
        (if template_id = TEMPLATE_MD_SNAPSHOT_FULL_REFRESH then
           let msg_size = calcSnapshotSize (data ! (offset + 30)) in
           Read (offset + 30) 1 #
           (if offset + msg_size \<le> len
            then Handle template_id offset msg_size
                   # walk_snapshot data len (offset + msg_size)
            else [])
         else
           let block_length = (le_word (slice data offset 2) :: u16) in
           Read offset 2 #
           walk_snapshot data len (offset + sizeof_SBEMessageHeader + unat block_length))
      else [])"
  by pat_completeness auto
termination
  by (relation "measure (\<lambda>(data, len, offset). len - offset)")
     (auto simp: calcSnapshotSize_def)

declare walk_snapshot.simps [simp del]

text \<open>A datagram shorter than the packet header is counted as an error and not
  parsed.  \<open>processIncrementalPacket\<close> reads \<open>msg_seq_num\<close> from the packet header
  before it walks the messages.\<close>

definition processIncrementalPacket :: "u8 list \<Rightarrow> nat \<Rightarrow> parse_step list" where
  "processIncrementalPacket data len =
     (if len < sizeof_PacketHeader then []
      else Read 0 4 # walk_incremental data len sizeof_PacketHeader)"

definition processSnapshotPacket :: "u8 list \<Rightarrow> nat \<Rightarrow> parse_step list" where
  "processSnapshotPacket data len =
     (if len < sizeof_PacketHeader then []
      else walk_snapshot data len sizeof_PacketHeader)"

definition within_datagram :: "nat \<Rightarrow> parse_step \<Rightarrow> bool" where
  "within_datagram len s =
     (case s of Read off n \<Rightarrow> off + n \<le> len | Handle t off n \<Rightarrow> off + n \<le> len)"

text \<open>Test data: the first 64 bytes of the receive buffer after a datagram of 20
  bytes was read into it, a packet header and one message header with template 32 (for
  the snapshot channel, 38); the bytes behind the datagram are older.\<close>

definition header_only_incremental :: "u8 list" where
  "header_only_incremental =
     [1, 0, 0, 0,  0, 0, 0, 0, 0, 0, 0, 0,  8, 0, 32, 0, 1, 0, 9, 0]
       @ replicate 44 0xAA"

definition header_only_snapshot :: "u8 list" where
  "header_only_snapshot =
     [1, 0, 0, 0,  0, 0, 0, 0, 0, 0, 0, 0,  20, 0, 38, 0, 1, 0, 9, 0]
       @ replicate 44 0xAA"

section \<open>Proofs\<close>

lemmas MDEntryType_defs = Bid_def Offer_def Trade_def ImpliedBid_def ImpliedOffer_def
lemmas MDUpdateAction_defs =
  New_def Change_def Delete_def DeleteThru_def DeleteFrom_def Overlay_def

subsection \<open>The loops, slot by slot\<close>

lemma length_shift_down [simp]: "length (shift_down a idx i) = length a"
  by (induction i arbitrary: a) auto

lemma nth_shift_down:
  "i < length a \<Longrightarrow> k < length a \<Longrightarrow>
   shift_down a idx i ! k = (if idx < k \<and> k \<le> i then a ! (k - 1) else a ! k)"
proof (induction i arbitrary: a)
  case 0 then show ?case by simp
next
  case (Suc j)
  then show ?case by (cases "k = Suc j") (auto simp: nth_list_update)
qed

lemma length_shift_up [simp]: "length (shift_up a i) = length a"
  by (induction a i rule: shift_up.induct) (subst shift_up.simps, auto)

lemma nth_shift_up:
  "length a = CME_MAX_DEPTH \<Longrightarrow> k < CME_MAX_DEPTH \<Longrightarrow>
   shift_up a i ! k = (if i \<le> k \<and> k < CME_MAX_DEPTH - 1 then a ! (k + 1) else a ! k)"
proof (induction a i rule: shift_up.induct)
  case (1 a i)
  show ?case
  proof (cases "i < CME_MAX_DEPTH - 1")
    case True
    with 1 show ?thesis
      by (subst shift_up.simps) (auto simp: nth_list_update)
  next
    case False
    then show ?thesis by (subst shift_up.simps) auto
  qed
qed

lemma length_clear_thru [simp]: "length (clear_thru a idx i) = length a"
  by (induction a idx i rule: clear_thru.induct) (subst clear_thru.simps, auto)

lemma nth_clear_thru:
  "length a = CME_MAX_DEPTH \<Longrightarrow> k < CME_MAX_DEPTH \<Longrightarrow>
   clear_thru a idx i ! k = (if i \<le> k \<and> k \<le> idx then CmePriceLevel0 else a ! k)"
proof (induction a idx i rule: clear_thru.induct)
  case (1 a idx i)
  show ?case
  proof (cases "i \<le> idx \<and> i < CME_MAX_DEPTH")
    case True
    with 1 show ?thesis
      by (subst clear_thru.simps) (auto simp: nth_list_update)
  next
    case False
    with 1 show ?thesis by (subst clear_thru.simps) auto
  qed
qed

lemma length_clear_from [simp]: "length (clear_from a i) = length a"
  by (induction a i rule: clear_from.induct) (subst clear_from.simps, auto)

lemma nth_clear_from:
  "length a = CME_MAX_DEPTH \<Longrightarrow> k < CME_MAX_DEPTH \<Longrightarrow>
   clear_from a i ! k = (if i \<le> k then CmePriceLevel0 else a ! k)"
proof (induction a i rule: clear_from.induct)
  case (1 a i)
  show ?case
  proof (cases "i < CME_MAX_DEPTH")
    case True
    with 1 show ?thesis
      by (subst clear_from.simps) (auto simp: nth_list_update)
  next
    case False
    with 1 show ?thesis by (subst clear_from.simps) auto
  qed
qed

subsection \<open>One ladder step keeps the slots beyond the count zero\<close>

lemma zero_beyond_nth:
  "zero_beyond a cnt = (\<forall>i. cnt \<le> i \<and> i < CME_MAX_DEPTH \<longrightarrow> a ! i = CmePriceLevel0)"
  by (auto simp: zero_beyond_def)

lemma applyBid_ladder:
  "applyBid b level action px qty orders =
     b\<lparr>bids := fst (ladder_step (bids b, bid_count b) level action (CmePriceLevel3 px qty orders)),
       bid_count := snd (ladder_step (bids b, bid_count b) level action (CmePriceLevel3 px qty orders))\<rparr>"
  by (simp add: applyBid_def ladder_step_def Let_def)

lemma applyAsk_ladder:
  "applyAsk b level action px qty orders =
     b\<lparr>asks := fst (ladder_step (asks b, ask_count b) level action (CmePriceLevel3 px qty orders)),
       ask_count := snd (ladder_step (asks b, ask_count b) level action (CmePriceLevel3 px qty orders))\<rparr>"
  by (simp add: applyAsk_def ladder_step_def Let_def)

lemma length_ladder_step [simp]:
  "length (fst (ladder_step (a, cnt) level action lv)) = length a"
  by (simp add: ladder_step_def Let_def)

lemma ladder_step_zero_beyond:
  assumes len: "length a = CME_MAX_DEPTH"
    and inv: "zero_beyond a cnt"
    and fits: "level_fits cnt action level"
  shows "zero_beyond (fst (ladder_step (a, cnt) level action lv))
           (snd (ladder_step (a, cnt) level action lv))"
proof (cases "level = 0 \<or> unat level > CME_MAX_DEPTH")
  case True
  with inv show ?thesis by (simp add: ladder_step_def)
next
  case False
  define idx where "idx = unat level - 1"
  from False have idx: "idx < CME_MAX_DEPTH"
    by (auto simp: idx_def unat_gt_0)
  have idx_eq: "unat level - Suc 0 = idx"
    by (simp add: idx_def)
  from inv have z: "\<And>i. cnt \<le> i \<Longrightarrow> i < CME_MAX_DEPTH \<Longrightarrow> a ! i = CmePriceLevel0"
    by (simp add: zero_beyond_nth)
  consider (c_new) "action = New" | (c_change) "action = Change" | (c_delete) "action = Delete"
    | (c_thru) "action = DeleteThru" | (c_from) "action = DeleteFrom" | (c_overlay) "action = Overlay"
    | (c_other) "action \<notin> {New, Change, Delete, DeleteThru, DeleteFrom, Overlay}"
    by auto
  then show ?thesis
  proof cases
    case c_new
    with fits False have "idx \<le> cnt"
      by (simp add: level_fits_def idx_eq)
    with c_new False idx len z show ?thesis
      by (auto simp: ladder_step_def Let_def zero_beyond_nth idx_eq nth_list_update
            nth_shift_down)
  next
    case c_change
    with fits False have "idx < cnt"
      by (simp add: level_fits_def idx_eq MDUpdateAction_defs)
    with c_change False idx len z show ?thesis
      by (auto simp: ladder_step_def Let_def zero_beyond_nth idx_eq nth_list_update
            MDUpdateAction_defs)
  next
    case c_delete
    with fits False have "idx < cnt"
      by (simp add: level_fits_def idx_eq MDUpdateAction_defs)
    with c_delete False idx len z show ?thesis
      by (auto simp: ladder_step_def Let_def zero_beyond_nth idx_eq nth_list_update
            nth_shift_up MDUpdateAction_defs)
  next
    case c_thru
    with fits False have "cnt \<le> idx + 1"
      by (simp add: level_fits_def idx_eq MDUpdateAction_defs)
    with c_thru False idx len z show ?thesis
      by (auto simp: ladder_step_def Let_def zero_beyond_nth idx_eq
            nth_clear_thru MDUpdateAction_defs)
  next
    case c_from
    with c_from False idx len z show ?thesis
      by (auto simp: ladder_step_def Let_def zero_beyond_nth idx_eq
            nth_clear_from MDUpdateAction_defs)
  next
    case c_overlay
    with c_overlay False idx len z show ?thesis
      by (auto simp: ladder_step_def Let_def zero_beyond_nth idx_eq nth_list_update
            MDUpdateAction_defs)
  next
    case c_other
    with c_other inv False show ?thesis
      by (simp add: ladder_step_def Let_def)
  qed
qed

subsection \<open>Books\<close>

lemma arrays_ok_applyUpdate: "arrays_ok b \<Longrightarrow> arrays_ok (applyUpdate b entry)"
  by (simp add: arrays_ok_def applyUpdate_def Let_def applyBid_ladder applyAsk_ladder
        recordTrade_def)

lemma arrays_ok_clear: "arrays_ok b \<Longrightarrow> arrays_ok (clear b)"
  by (simp add: arrays_ok_def clear_def)

lemma arrays_ok_step: "arrays_ok b \<Longrightarrow> arrays_ok (applySnapshot_step b entry)"
  by (simp add: arrays_ok_def applySnapshot_step_def Let_def)

lemma arrays_ok_loop: "arrays_ok b \<Longrightarrow> arrays_ok (applySnapshot_loop b entries)"
  by (induction entries arbitrary: b) (simp_all add: arrays_ok_step)

lemma arrays_ok_applySnapshot: "arrays_ok b \<Longrightarrow> arrays_ok (applySnapshot b entries)"
  by (simp add: applySnapshot_def arrays_ok_loop arrays_ok_clear)

lemma arrays_ok_new: "arrays_ok (CmeOrderBook_new sid)"
  by (simp add: arrays_ok_def CmeOrderBook_new_def clear_def)

lemma inv_applyUpdate:
  assumes "arrays_ok b" and "slots_beyond_count_zero b" and "entry_fits b entry"
  shows "slots_beyond_count_zero (applyUpdate b entry)"
proof -
  let ?lv = "CmePriceLevel3 (md_entry_px entry) (md_entry_size entry) (number_of_orders entry)"
  consider (bid) "md_entry_type entry = Bid \<or> md_entry_type entry = ImpliedBid"
    | (ask) "\<not> (md_entry_type entry = Bid \<or> md_entry_type entry = ImpliedBid)"
        "md_entry_type entry = Offer \<or> md_entry_type entry = ImpliedOffer"
    | (neither) "\<not> (md_entry_type entry = Bid \<or> md_entry_type entry = ImpliedBid)"
        "\<not> (md_entry_type entry = Offer \<or> md_entry_type entry = ImpliedOffer)"
    by blast
  then show ?thesis
  proof cases
    case bid
    with assms have "level_fits (bid_count b) (md_update_action entry) (md_price_level entry)"
      by (simp add: entry_fits_def)
    with assms have "zero_beyond
        (fst (ladder_step (bids b, bid_count b) (md_price_level entry) (md_update_action entry) ?lv))
        (snd (ladder_step (bids b, bid_count b) (md_price_level entry) (md_update_action entry) ?lv))"
      by (intro ladder_step_zero_beyond) (simp_all add: arrays_ok_def slots_beyond_count_zero_def)
    with bid assms(2) show ?thesis
      by (simp add: applyUpdate_def Let_def applyBid_ladder slots_beyond_count_zero_def)
  next
    case ask
    with assms have "level_fits (ask_count b) (md_update_action entry) (md_price_level entry)"
      by (simp add: entry_fits_def)
    with assms have "zero_beyond
        (fst (ladder_step (asks b, ask_count b) (md_price_level entry) (md_update_action entry) ?lv))
        (snd (ladder_step (asks b, ask_count b) (md_price_level entry) (md_update_action entry) ?lv))"
      by (intro ladder_step_zero_beyond) (simp_all add: arrays_ok_def slots_beyond_count_zero_def)
    with ask assms(2) show ?thesis
      by (simp add: applyUpdate_def Let_def applyAsk_ladder slots_beyond_count_zero_def)
  next
    case neither
    with assms(2) show ?thesis
      by (simp add: applyUpdate_def Let_def recordTrade_def slots_beyond_count_zero_def)
  qed
qed

lemma inv_clear: "arrays_ok b \<Longrightarrow> slots_beyond_count_zero (clear b)"
  by (simp add: slots_beyond_count_zero_def zero_beyond_nth clear_def arrays_ok_def)

lemma inv_step:
  "arrays_ok b \<Longrightarrow> slots_beyond_count_zero b \<Longrightarrow>
   slots_beyond_count_zero (applySnapshot_step b entry)"
  by (auto simp: slots_beyond_count_zero_def zero_beyond_nth applySnapshot_step_def Let_def
        arrays_ok_def nth_list_update)

lemma inv_loop:
  "arrays_ok b \<Longrightarrow> slots_beyond_count_zero b \<Longrightarrow>
   slots_beyond_count_zero (applySnapshot_loop b entries)"
  by (induction entries arbitrary: b) (simp_all add: inv_step arrays_ok_step)

lemma inv_applySnapshot:
  "arrays_ok b \<Longrightarrow> slots_beyond_count_zero (applySnapshot b entries)"
  by (simp add: applySnapshot_def inv_loop inv_clear arrays_ok_clear)

lemma inv_event:
  "arrays_ok b \<Longrightarrow> slots_beyond_count_zero b \<Longrightarrow> event_fits b ev \<Longrightarrow>
   arrays_ok (apply_event b ev) \<and> slots_beyond_count_zero (apply_event b ev)"
proof (cases ev)
  case (Incremental entry)
  assume "arrays_ok b" "slots_beyond_count_zero b" "event_fits b ev"
  with Incremental show ?thesis
    by (simp add: arrays_ok_applyUpdate inv_applyUpdate)
next
  case (Snapshot entries seq)
  assume a: "arrays_ok b"
  then have "arrays_ok (applySnapshot b entries)" "slots_beyond_count_zero (applySnapshot b entries)"
    by (rule arrays_ok_applySnapshot, rule inv_applySnapshot)
  with Snapshot show ?thesis
    by (simp add: arrays_ok_def slots_beyond_count_zero_def)
qed

lemma inv_events:
  "arrays_ok b \<Longrightarrow> slots_beyond_count_zero b \<Longrightarrow> events_fit b evs \<Longrightarrow>
   slots_beyond_count_zero (apply_events b evs)"
proof (induction evs arbitrary: b)
  case Nil
  then show ?case by simp
next
  case (Cons ev evs)
  from Cons.prems have "arrays_ok (apply_event b ev) \<and> slots_beyond_count_zero (apply_event b ev)"
    by (intro inv_event) simp_all
  with Cons show ?case by simp
qed

subsection \<open>DeleteThru (C2)\<close>

lemma clear_thru_eq:
  assumes "length a = CME_MAX_DEPTH" "idx < CME_MAX_DEPTH"
  shows "clear_thru a idx 0 = replicate (idx + 1) CmePriceLevel0 @ drop (idx + 1) a"
proof (rule nth_equalityI)
  show "length (clear_thru a idx 0) = length (replicate (idx + 1) CmePriceLevel0 @ drop (idx + 1) a)"
    using assms by simp
next
  fix i assume "i < length (clear_thru a idx 0)"
  with assms have i: "i < CME_MAX_DEPTH" by simp
  with assms show "clear_thru a idx 0 ! i = (replicate (idx + 1) CmePriceLevel0 @ drop (idx + 1) a) ! i"
    by (auto simp: nth_clear_thru nth_append simp del: replicate.simps)
qed

text \<open>
  C2, as stated: on the book whose bids occupy positions 1 to 5, DeleteThru with L = 2
  leaves \<open>bid_count = 0\<close> and every bid slot zero.  The code clears slots 1 and 2 only:
  the third slot still holds its level.
\<close>

theorem DeleteThru_whole_side_counterexample:
  "\<not> (bid_count (applyUpdate book5 (mk_entry 6 Bid DeleteThru 2 0 0 0)) = 0 \<and>
      list_all (\<lambda>l. l = CmePriceLevel0) (bids (applyUpdate book5 (mk_entry 6 Bid DeleteThru 2 0 0 0))))"
  by code_simp

text \<open>
  C2, amended: DeleteThru at a level L in 1..10 sets the count of the side to 0 and
  clears positions 1 to L; the positions beyond L keep what they held.
\<close>

theorem DeleteThru_clears_prefix_only:
  assumes "arrays_ok b" and "level \<noteq> 0" and "unat level \<le> CME_MAX_DEPTH"
  shows "bid_count (applyBid b level DeleteThru px qty orders) = 0
       \<and> bids (applyBid b level DeleteThru px qty orders)
           = replicate (unat level) CmePriceLevel0 @ drop (unat level) (bids b)
       \<and> ask_count (applyAsk b level DeleteThru px qty orders) = 0
       \<and> asks (applyAsk b level DeleteThru px qty orders)
           = replicate (unat level) CmePriceLevel0 @ drop (unat level) (asks b)"
proof -
  from assms have idx: "unat level - 1 < CME_MAX_DEPTH" "unat level - 1 + 1 = unat level"
    by (simp_all add: unat_gt_0 Suc_leI)
  from assms(1) have len: "length (bids b) = CME_MAX_DEPTH" "length (asks b) = CME_MAX_DEPTH"
    by (simp_all add: arrays_ok_def)
  from clear_thru_eq [OF len(1) idx(1)] clear_thru_eq [OF len(2) idx(1)] idx(2) assms(2,3)
  show ?thesis
    by (simp add: applyBid_def applyAsk_def MDUpdateAction_defs)
qed

theorem DeleteThru_clears_prefix_only_witness:
  "arrays_ok book5 \<and> (2 :: u8) \<noteq> 0 \<and> unat (2 :: u8) \<le> CME_MAX_DEPTH
   \<and> bid_count (applyBid book5 2 DeleteThru 0 0 0) = 0
   \<and> bids (applyBid book5 2 DeleteThru 0 0 0)
       = [CmePriceLevel0, CmePriceLevel0, CmePriceLevel3 300 5 1, CmePriceLevel3 200 5 1,
          CmePriceLevel3 100 5 1, CmePriceLevel0, CmePriceLevel0, CmePriceLevel0,
          CmePriceLevel0, CmePriceLevel0]"
proof -
  have a: "arrays_ok book5" by code_simp
  have b: "bids book5 = [CmePriceLevel3 500 5 1, CmePriceLevel3 400 5 1, CmePriceLevel3 300 5 1, CmePriceLevel3 200 5 1,
          CmePriceLevel3 100 5 1, CmePriceLevel0, CmePriceLevel0, CmePriceLevel0,
          CmePriceLevel0, CmePriceLevel0]" by code_simp
  have r: "replicate 2 CmePriceLevel0 = [CmePriceLevel0, CmePriceLevel0]"
    by (simp add: numeral_2_eq_2)
  show ?thesis
    using a DeleteThru_clears_prefix_only [OF a, of 2 0 0 0] by (simp add: b r)
qed

subsection \<open>Slots beyond the count (C3)\<close>

text \<open>
  C3, as stated: in every book state reached from an empty book by applied incremental
  entries and snapshot applications, the slots at or beyond the count are zero.  The
  book does not check a level against the count: a New at level 3 on the empty book
  leaves the count at 1 and the level in the third slot.
\<close>

theorem slots_beyond_count_zero_counterexample:
  "\<not> slots_beyond_count_zero
       (apply_events (CmeOrderBook_new 1001) [Incremental (mk_entry 1 Bid New 3 300 5 1)])"
  by code_simp

text \<open>
  C3, amended: the slots at or beyond the count are zero in every book state reached
  from an empty book by snapshot applications and applied incremental entries, provided
  each entry fits the occupied prefix of its ladder when it is applied (New at a level of
  at most count + 1, Change and Delete at an occupied level, DeleteThru at a level of at
  least the count).
\<close>

theorem fitting_events_keep_slots_beyond_count_zero:
  assumes "events_fit (CmeOrderBook_new sid) evs"
  shows "slots_beyond_count_zero (apply_events (CmeOrderBook_new sid) evs)"
proof -
  have "slots_beyond_count_zero (CmeOrderBook_new sid)"
    by (simp add: CmeOrderBook_new_def inv_clear arrays_ok_def)
  with arrays_ok_new show ?thesis
    using assms by (rule inv_events)
qed

theorem fitting_events_keep_slots_beyond_count_zero_witness:
  "events_fit (CmeOrderBook_new 1001) scenario_events \<and>
   slots_beyond_count_zero (apply_events (CmeOrderBook_new 1001) scenario_events)"
proof -
  have h: "events_fit (CmeOrderBook_new 1001) scenario_events" by code_simp
  from fitting_events_keep_slots_beyond_count_zero [OF h] h show ?thesis by simp
qed

subsection \<open>Snapshot entries and implied types (C9)\<close>

lemma applySnapshot_loop_filter:
  "applySnapshot_loop b (filter (\<lambda>e. se_md_entry_type e = Bid \<or> se_md_entry_type e = Offer) es)
     = applySnapshot_loop b es"
  by (induction es arbitrary: b) (auto simp: applySnapshot_step_def Let_def)

lemma applySnapshot_loop_snoc:
  "applySnapshot_loop b (es @ [e]) = applySnapshot_step (applySnapshot_loop b es) e"
  by (induction es arbitrary: b) simp_all


text \<open>
  C9: a snapshot application clears the book and then takes its entries in order; an
  entry typed Bid or Offer with a level in 1..10 is written into the bid or ask ladder
  at that level and raises the count to the level, and an entry typed ImpliedBid,
  ImpliedOffer or Trade leaves the book as it is, so the application does what it does
  on its Bid and Offer entries alone.  On the incremental path an ImpliedBid entry has
  the effect of the same entry typed Bid, and an ImpliedOffer entry that of the same
  entry typed Offer: both go through \<open>applyBid\<close> or \<open>applyAsk\<close>, and as an
  Overlay they make the very write that the snapshot refuses them.
\<close>

theorem snapshot_ignores_implied_entries:
  "applySnapshot b [] = clear b
   \<and> applySnapshot b (es @ [e]) = applySnapshot_step (applySnapshot b es) e
   \<and> applySnapshot b es
       = applySnapshot b (filter (\<lambda>e. se_md_entry_type e = Bid \<or> se_md_entry_type e = Offer) es)
   \<and> (se_md_entry_type e \<in> {ImpliedBid, ImpliedOffer, Trade} \<longrightarrow> applySnapshot_step b e = b)
   \<and> (se_md_entry_type eb = Bid \<and> se_md_price_level eb \<noteq> 0
        \<and> unat (se_md_price_level eb) \<le> CME_MAX_DEPTH \<longrightarrow>
      applySnapshot_step b eb
        = b\<lparr>bids := (bids b)[unat (se_md_price_level eb) - 1 :=
                     CmePriceLevel3 (se_md_entry_px eb) (se_md_entry_size eb)
                       (se_number_of_orders eb)],
            bid_count := max (bid_count b) (unat (se_md_price_level eb))\<rparr>)
   \<and> (se_md_entry_type eo = Offer \<and> se_md_price_level eo \<noteq> 0
        \<and> unat (se_md_price_level eo) \<le> CME_MAX_DEPTH \<longrightarrow>
      applySnapshot_step b eo
        = b\<lparr>asks := (asks b)[unat (se_md_price_level eo) - 1 :=
                     CmePriceLevel3 (se_md_entry_px eo) (se_md_entry_size eo)
                       (se_number_of_orders eo)],
            ask_count := max (ask_count b) (unat (se_md_price_level eo))\<rparr>)
   \<and> applyUpdate b (u\<lparr>md_entry_type := ImpliedBid\<rparr>) = applyUpdate b (u\<lparr>md_entry_type := Bid\<rparr>)
   \<and> applyUpdate b (u\<lparr>md_entry_type := ImpliedOffer\<rparr>) = applyUpdate b (u\<lparr>md_entry_type := Offer\<rparr>)
   \<and> (md_entry_type ub \<in> {Bid, ImpliedBid} \<longrightarrow>
        bids (applyUpdate b ub)
          = bids (applyBid b (md_price_level ub) (md_update_action ub) (md_entry_px ub)
                   (md_entry_size ub) (number_of_orders ub))
      \<and> bid_count (applyUpdate b ub)
          = bid_count (applyBid b (md_price_level ub) (md_update_action ub) (md_entry_px ub)
                   (md_entry_size ub) (number_of_orders ub))
      \<and> asks (applyUpdate b ub) = asks b \<and> ask_count (applyUpdate b ub) = ask_count b)
   \<and> (md_entry_type uo \<in> {Offer, ImpliedOffer} \<longrightarrow>
        asks (applyUpdate b uo)
          = asks (applyAsk b (md_price_level uo) (md_update_action uo) (md_entry_px uo)
                   (md_entry_size uo) (number_of_orders uo))
      \<and> ask_count (applyUpdate b uo)
          = ask_count (applyAsk b (md_price_level uo) (md_update_action uo) (md_entry_px uo)
                   (md_entry_size uo) (number_of_orders uo))
      \<and> bids (applyUpdate b uo) = bids b \<and> bid_count (applyUpdate b uo) = bid_count b)
   \<and> (md_entry_type ub \<in> {Bid, ImpliedBid} \<and> md_update_action ub = Overlay
        \<and> md_price_level ub \<noteq> 0 \<and> unat (md_price_level ub) \<le> CME_MAX_DEPTH \<longrightarrow>
        bids (applyUpdate b ub)
          = (bids b)[unat (md_price_level ub) - 1 :=
               CmePriceLevel3 (md_entry_px ub) (md_entry_size ub) (number_of_orders ub)]
      \<and> bid_count (applyUpdate b ub) = max (bid_count b) (unat (md_price_level ub)))
   \<and> (md_entry_type uo \<in> {Offer, ImpliedOffer} \<and> md_update_action uo = Overlay
        \<and> md_price_level uo \<noteq> 0 \<and> unat (md_price_level uo) \<le> CME_MAX_DEPTH \<longrightarrow>
        asks (applyUpdate b uo)
          = (asks b)[unat (md_price_level uo) - 1 :=
               CmePriceLevel3 (md_entry_px uo) (md_entry_size uo) (number_of_orders uo)]
      \<and> ask_count (applyUpdate b uo) = max (ask_count b) (unat (md_price_level uo)))"
proof (intro conjI)
  show "applySnapshot b [] = clear b"
    by (simp add: applySnapshot_def)
  show "applySnapshot b (es @ [e]) = applySnapshot_step (applySnapshot b es) e"
    by (simp add: applySnapshot_def applySnapshot_loop_snoc)
  show "applySnapshot b es
     = applySnapshot b (filter (\<lambda>e. se_md_entry_type e = Bid \<or> se_md_entry_type e = Offer) es)"
    by (simp add: applySnapshot_def applySnapshot_loop_filter)
  show "se_md_entry_type e \<in> {ImpliedBid, ImpliedOffer, Trade} \<longrightarrow> applySnapshot_step b e = b"
    by (auto simp: applySnapshot_step_def Let_def MDEntryType_defs)
  show "se_md_entry_type eb = Bid \<and> se_md_price_level eb \<noteq> 0
        \<and> unat (se_md_price_level eb) \<le> CME_MAX_DEPTH \<longrightarrow>
      applySnapshot_step b eb
        = b\<lparr>bids := (bids b)[unat (se_md_price_level eb) - 1 :=
                     CmePriceLevel3 (se_md_entry_px eb) (se_md_entry_size eb)
                       (se_number_of_orders eb)],
            bid_count := max (bid_count b) (unat (se_md_price_level eb))\<rparr>"
  proof
    assume h: "se_md_entry_type eb = Bid \<and> se_md_price_level eb \<noteq> 0
        \<and> unat (se_md_price_level eb) \<le> CME_MAX_DEPTH"
    then have "0 < unat (se_md_price_level eb)" by (simp add: unat_gt_0)
    then have s: "unat (se_md_price_level eb) - 1 + 1 = unat (se_md_price_level eb)" by simp
    have m: "(if n < k then k else n) = max n k" for n k :: nat by (simp add: max_def)
    from h show "applySnapshot_step b eb
        = b\<lparr>bids := (bids b)[unat (se_md_price_level eb) - 1 :=
                     CmePriceLevel3 (se_md_entry_px eb) (se_md_entry_size eb)
                       (se_number_of_orders eb)],
            bid_count := max (bid_count b) (unat (se_md_price_level eb))\<rparr>"
      unfolding applySnapshot_step_def Let_def s by (simp add: m)
  qed
  show "se_md_entry_type eo = Offer \<and> se_md_price_level eo \<noteq> 0
        \<and> unat (se_md_price_level eo) \<le> CME_MAX_DEPTH \<longrightarrow>
      applySnapshot_step b eo
        = b\<lparr>asks := (asks b)[unat (se_md_price_level eo) - 1 :=
                     CmePriceLevel3 (se_md_entry_px eo) (se_md_entry_size eo)
                       (se_number_of_orders eo)],
            ask_count := max (ask_count b) (unat (se_md_price_level eo))\<rparr>"
  proof
    assume h: "se_md_entry_type eo = Offer \<and> se_md_price_level eo \<noteq> 0
        \<and> unat (se_md_price_level eo) \<le> CME_MAX_DEPTH"
    then have "0 < unat (se_md_price_level eo)" by (simp add: unat_gt_0)
    then have s: "unat (se_md_price_level eo) - 1 + 1 = unat (se_md_price_level eo)" by simp
    have m: "(if n < k then k else n) = max n k" for n k :: nat by (simp add: max_def)
    have ne: "Offer \<noteq> Bid" by (simp add: MDEntryType_defs)
    from h ne show "applySnapshot_step b eo
        = b\<lparr>asks := (asks b)[unat (se_md_price_level eo) - 1 :=
                     CmePriceLevel3 (se_md_entry_px eo) (se_md_entry_size eo)
                       (se_number_of_orders eo)],
            ask_count := max (ask_count b) (unat (se_md_price_level eo))\<rparr>"
      unfolding applySnapshot_step_def Let_def s by (simp add: m)
  qed
  show "applyUpdate b (u\<lparr>md_entry_type := ImpliedBid\<rparr>) = applyUpdate b (u\<lparr>md_entry_type := Bid\<rparr>)"
    by (simp add: applyUpdate_def Let_def)
  show "applyUpdate b (u\<lparr>md_entry_type := ImpliedOffer\<rparr>) = applyUpdate b (u\<lparr>md_entry_type := Offer\<rparr>)"
    by (simp add: applyUpdate_def Let_def MDEntryType_defs)
  show bid_path: "md_entry_type ub \<in> {Bid, ImpliedBid} \<longrightarrow>
        bids (applyUpdate b ub)
          = bids (applyBid b (md_price_level ub) (md_update_action ub) (md_entry_px ub)
                   (md_entry_size ub) (number_of_orders ub))
      \<and> bid_count (applyUpdate b ub)
          = bid_count (applyBid b (md_price_level ub) (md_update_action ub) (md_entry_px ub)
                   (md_entry_size ub) (number_of_orders ub))
      \<and> asks (applyUpdate b ub) = asks b \<and> ask_count (applyUpdate b ub) = ask_count b"
    by (auto simp: applyUpdate_def Let_def applyBid_ladder)
  show ask_path: "md_entry_type uo \<in> {Offer, ImpliedOffer} \<longrightarrow>
        asks (applyUpdate b uo)
          = asks (applyAsk b (md_price_level uo) (md_update_action uo) (md_entry_px uo)
                   (md_entry_size uo) (number_of_orders uo))
      \<and> ask_count (applyUpdate b uo)
          = ask_count (applyAsk b (md_price_level uo) (md_update_action uo) (md_entry_px uo)
                   (md_entry_size uo) (number_of_orders uo))
      \<and> bids (applyUpdate b uo) = bids b \<and> bid_count (applyUpdate b uo) = bid_count b"
    by (auto simp: applyUpdate_def Let_def applyAsk_ladder MDEntryType_defs)
  have m: "(if n < k then k else n) = max n k" for n k :: nat by (simp add: max_def)
  show "md_entry_type ub \<in> {Bid, ImpliedBid} \<and> md_update_action ub = Overlay
        \<and> md_price_level ub \<noteq> 0 \<and> unat (md_price_level ub) \<le> CME_MAX_DEPTH \<longrightarrow>
        bids (applyUpdate b ub)
          = (bids b)[unat (md_price_level ub) - 1 :=
               CmePriceLevel3 (md_entry_px ub) (md_entry_size ub) (number_of_orders ub)]
      \<and> bid_count (applyUpdate b ub) = max (bid_count b) (unat (md_price_level ub))"
  proof
    assume h: "md_entry_type ub \<in> {Bid, ImpliedBid} \<and> md_update_action ub = Overlay
        \<and> md_price_level ub \<noteq> 0 \<and> unat (md_price_level ub) \<le> CME_MAX_DEPTH"
    then have "0 < unat (md_price_level ub)" by (simp add: unat_gt_0)
    then have s: "unat (md_price_level ub) - 1 + 1 = unat (md_price_level ub)" by simp
    from h have a: "bids (applyBid b (md_price_level ub) (md_update_action ub) (md_entry_px ub)
                   (md_entry_size ub) (number_of_orders ub))
          = (bids b)[unat (md_price_level ub) - 1 :=
               CmePriceLevel3 (md_entry_px ub) (md_entry_size ub) (number_of_orders ub)]"
      "bid_count (applyBid b (md_price_level ub) (md_update_action ub) (md_entry_px ub)
                   (md_entry_size ub) (number_of_orders ub))
          = max (bid_count b) (unat (md_price_level ub))"
      unfolding applyBid_def Let_def s by (simp_all add: m MDUpdateAction_defs)
    from h bid_path a show "bids (applyUpdate b ub)
          = (bids b)[unat (md_price_level ub) - 1 :=
               CmePriceLevel3 (md_entry_px ub) (md_entry_size ub) (number_of_orders ub)]
      \<and> bid_count (applyUpdate b ub) = max (bid_count b) (unat (md_price_level ub))"
      by simp
  qed
  show "md_entry_type uo \<in> {Offer, ImpliedOffer} \<and> md_update_action uo = Overlay
        \<and> md_price_level uo \<noteq> 0 \<and> unat (md_price_level uo) \<le> CME_MAX_DEPTH \<longrightarrow>
        asks (applyUpdate b uo)
          = (asks b)[unat (md_price_level uo) - 1 :=
               CmePriceLevel3 (md_entry_px uo) (md_entry_size uo) (number_of_orders uo)]
      \<and> ask_count (applyUpdate b uo) = max (ask_count b) (unat (md_price_level uo))"
  proof
    assume h: "md_entry_type uo \<in> {Offer, ImpliedOffer} \<and> md_update_action uo = Overlay
        \<and> md_price_level uo \<noteq> 0 \<and> unat (md_price_level uo) \<le> CME_MAX_DEPTH"
    then have "0 < unat (md_price_level uo)" by (simp add: unat_gt_0)
    then have s: "unat (md_price_level uo) - 1 + 1 = unat (md_price_level uo)" by simp
    from h have a: "asks (applyAsk b (md_price_level uo) (md_update_action uo) (md_entry_px uo)
                   (md_entry_size uo) (number_of_orders uo))
          = (asks b)[unat (md_price_level uo) - 1 :=
               CmePriceLevel3 (md_entry_px uo) (md_entry_size uo) (number_of_orders uo)]"
      "ask_count (applyAsk b (md_price_level uo) (md_update_action uo) (md_entry_px uo)
                   (md_entry_size uo) (number_of_orders uo))
          = max (ask_count b) (unat (md_price_level uo))"
      unfolding applyAsk_def Let_def s by (simp_all add: m MDUpdateAction_defs)
    from h ask_path a show "asks (applyUpdate b uo)
          = (asks b)[unat (md_price_level uo) - 1 :=
               CmePriceLevel3 (md_entry_px uo) (md_entry_size uo) (number_of_orders uo)]
      \<and> ask_count (applyUpdate b uo) = max (ask_count b) (unat (md_price_level uo))"
      by simp
  qed
qed

theorem snapshot_ignores_implied_entries_witness:
  "se_md_entry_type (snap_entry ImpliedBid 2 400 3 1) \<in> {ImpliedBid, ImpliedOffer, Trade}
   \<and> applySnapshot book5 [snap_entry ImpliedBid 2 400 3 1] = clear book5
   \<and> se_md_entry_type (snap_entry Bid 2 400 3 1) = Bid
   \<and> se_md_price_level (snap_entry Bid 2 400 3 1) \<noteq> 0
   \<and> unat (se_md_price_level (snap_entry Bid 2 400 3 1)) \<le> CME_MAX_DEPTH
   \<and> applySnapshot book5 [snap_entry Bid 2 400 3 1]
       = (clear book5)\<lparr>bids := (replicate 10 CmePriceLevel0)[1 := CmePriceLevel3 400 3 1],
                        bid_count := 2\<rparr>
   \<and> applySnapshot book5 [snap_entry Bid 2 400 3 1]
       \<noteq> applySnapshot book5 [snap_entry ImpliedBid 2 400 3 1]
   \<and> se_md_entry_type (snap_entry Offer 1 600 2 1) = Offer
   \<and> applySnapshot book5 [snap_entry Offer 1 600 2 1]
       = (clear book5)\<lparr>asks := (replicate 10 CmePriceLevel0)[0 := CmePriceLevel3 600 2 1],
                        ask_count := 1\<rparr>
   \<and> md_entry_type (mk_entry 6 ImpliedBid Overlay 7 700 9 9) \<in> {Bid, ImpliedBid}
   \<and> bids (applyUpdate (clear book5) (mk_entry 6 ImpliedBid Overlay 7 700 9 9))
       = (replicate 10 CmePriceLevel0)[6 := CmePriceLevel3 700 9 9]
   \<and> bid_count (applyUpdate (clear book5) (mk_entry 6 ImpliedBid Overlay 7 700 9 9)) = 7
   \<and> md_entry_type (mk_entry 6 ImpliedOffer Overlay 2 800 4 4) \<in> {Offer, ImpliedOffer}
   \<and> asks (applyUpdate (clear book5) (mk_entry 6 ImpliedOffer Overlay 2 800 4 4))
       = (replicate 10 CmePriceLevel0)[1 := CmePriceLevel3 800 4 4]
   \<and> ask_count (applyUpdate (clear book5) (mk_entry 6 ImpliedOffer Overlay 2 800 4 4)) = 2"
proof -
  let ?ei = "snap_entry ImpliedBid 2 400 3 1" and ?eb = "snap_entry Bid 2 400 3 1"
    and ?eo = "snap_entry Offer 1 600 2 1"
    and ?ub = "mk_entry 6 ImpliedBid Overlay 7 700 9 9"
    and ?uo = "mk_entry 6 ImpliedOffer Overlay 2 800 4 4"
  have c: "bids (clear book5) = replicate 10 CmePriceLevel0"
    "asks (clear book5) = replicate 10 CmePriceLevel0"
    "bid_count (clear book5) = 0" "ask_count (clear book5) = 0"
    by code_simp+
  have hi: "se_md_entry_type ?ei \<in> {ImpliedBid, ImpliedOffer, Trade}"
    by (simp add: snap_entry_def)
  have hb: "se_md_entry_type ?eb = Bid \<and> se_md_price_level ?eb \<noteq> 0
      \<and> unat (se_md_price_level ?eb) \<le> CME_MAX_DEPTH"
    by (simp add: snap_entry_def)
  have ho: "se_md_entry_type ?eo = Offer \<and> se_md_price_level ?eo \<noteq> 0
      \<and> unat (se_md_price_level ?eo) \<le> CME_MAX_DEPTH"
    by (simp add: snap_entry_def)
  have hub: "md_entry_type ?ub \<in> {Bid, ImpliedBid} \<and> md_update_action ?ub = Overlay
      \<and> md_price_level ?ub \<noteq> 0 \<and> unat (md_price_level ?ub) \<le> CME_MAX_DEPTH"
    by (simp add: mk_entry_def)
  have huo: "md_entry_type ?uo \<in> {Offer, ImpliedOffer} \<and> md_update_action ?uo = Overlay
      \<and> md_price_level ?uo \<noteq> 0 \<and> unat (md_price_level ?uo) \<le> CME_MAX_DEPTH"
    by (simp add: mk_entry_def)
  note r = snapshot_ignores_implied_entries
    [where b = "clear book5" and e = ?ei and eb = ?eb and eo = ?eo and ub = ?ub and uo = ?uo]
  note s = snapshot_ignores_implied_entries [where b = book5 and es = "[]"]
  from s [where e = ?ei] have si: "applySnapshot book5 [?ei] = applySnapshot_step (clear book5) ?ei"
    by simp
  from s [where e = ?eb] have sb: "applySnapshot book5 [?eb] = applySnapshot_step (clear book5) ?eb"
    by simp
  from s [where e = ?eo] have so: "applySnapshot book5 [?eo] = applySnapshot_step (clear book5) ?eo"
    by simp
  from r hi have 1: "applySnapshot_step (clear book5) ?ei = clear book5"
    by blast
  from r hb have "applySnapshot_step (clear book5) ?eb
        = (clear book5)\<lparr>bids := (bids (clear book5))[unat (se_md_price_level ?eb) - 1 :=
                     CmePriceLevel3 (se_md_entry_px ?eb) (se_md_entry_size ?eb)
                       (se_number_of_orders ?eb)],
            bid_count := max (bid_count (clear book5)) (unat (se_md_price_level ?eb))\<rparr>"
    by blast
  then have 2: "applySnapshot_step (clear book5) ?eb
       = (clear book5)\<lparr>bids := (replicate 10 CmePriceLevel0)[1 := CmePriceLevel3 400 3 1],
                        bid_count := 2\<rparr>"
    by (simp add: c snap_entry_def)
  from r ho have "applySnapshot_step (clear book5) ?eo
        = (clear book5)\<lparr>asks := (asks (clear book5))[unat (se_md_price_level ?eo) - 1 :=
                     CmePriceLevel3 (se_md_entry_px ?eo) (se_md_entry_size ?eo)
                       (se_number_of_orders ?eo)],
            ask_count := max (ask_count (clear book5)) (unat (se_md_price_level ?eo))\<rparr>"
    by blast
  then have 3: "applySnapshot_step (clear book5) ?eo
       = (clear book5)\<lparr>asks := (replicate 10 CmePriceLevel0)[0 := CmePriceLevel3 600 2 1],
                        ask_count := 1\<rparr>"
    by (simp add: c snap_entry_def)
  from r hub have "bids (applyUpdate (clear book5) ?ub)
          = (bids (clear book5))[unat (md_price_level ?ub) - 1 :=
               CmePriceLevel3 (md_entry_px ?ub) (md_entry_size ?ub) (number_of_orders ?ub)]
      \<and> bid_count (applyUpdate (clear book5) ?ub)
          = max (bid_count (clear book5)) (unat (md_price_level ?ub))"
    by blast
  then have 4: "bids (applyUpdate (clear book5) ?ub)
       = (replicate 10 CmePriceLevel0)[6 := CmePriceLevel3 700 9 9]"
    "bid_count (applyUpdate (clear book5) ?ub) = 7"
    by (simp_all add: c mk_entry_def)
  from r huo have "asks (applyUpdate (clear book5) ?uo)
          = (asks (clear book5))[unat (md_price_level ?uo) - 1 :=
               CmePriceLevel3 (md_entry_px ?uo) (md_entry_size ?uo) (number_of_orders ?uo)]
      \<and> ask_count (applyUpdate (clear book5) ?uo)
          = max (ask_count (clear book5)) (unat (md_price_level ?uo))"
    by blast
  then have 5: "asks (applyUpdate (clear book5) ?uo)
       = (replicate 10 CmePriceLevel0)[1 := CmePriceLevel3 800 4 4]"
    "ask_count (applyUpdate (clear book5) ?uo) = 2"
    by (simp_all add: c mk_entry_def)
  have 6: "applySnapshot book5 [?eb] \<noteq> applySnapshot book5 [?ei]"
  proof
    assume "applySnapshot book5 [?eb] = applySnapshot book5 [?ei]"
    then have "bid_count (applySnapshot book5 [?eb]) = bid_count (applySnapshot book5 [?ei])"
      by simp
    then show False
      by (simp add: si sb 1 2 c)
  qed
  from hi hb ho hub huo 1 2 3 4 5 6 show ?thesis
    by (simp only: si sb so simp_thms)
qed

subsection \<open>Negative prices on the output path (C10)\<close>

lemma uint_cmeToFixedPrice:
  "uint (cmeToFixedPrice p) = (sgn (sint p) * (\<bar>sint p\<bar> div 1000)) mod 2 ^ 32"
proof -
  have "uint (cmeToFixedPrice p) = take_bit 32 (take_bit 64 (sint p sdiv 1000))"
    by (simp add: cmeToFixedPrice_def sdiv64_def unsigned_ucast_eq uint_word_of_int_eq)
  also have "\<dots> = take_bit 32 (sint p sdiv 1000)"
    by simp
  finally show ?thesis
    by (simp add: take_bit_eq_mod signed_divide_int_def)
qed

lemma levels_convertSide:
  "i < min cnt CME_MAX_DEPTH \<Longrightarrow> levels (convertSide a cnt) ! i = convertLevel (a ! i)"
  by (simp add: convertSide_def Let_def)

text \<open>
  C10: the price published for an occupied level, and the published last-trade price,
  is the stored price divided by 1000 with truncation towards zero, taken modulo
  \<open>2 ^ 32\<close>; this holds for negative stored prices as for all others, and the level
  is counted in the snapshot whatever its sign.
\<close>

theorem negative_price_published_wrapped:
  "(i < min (bid_count b) CME_MAX_DEPTH \<longrightarrow>
      uint (pl_price (levels (snap_bids (getSnapshot b)) ! i))
        = (sgn (sint (price (bids b ! i))) * (\<bar>sint (price (bids b ! i))\<bar> div 1000)) mod 2 ^ 32)
   \<and> (i < min (ask_count b) CME_MAX_DEPTH \<longrightarrow>
      uint (pl_price (levels (snap_asks (getSnapshot b)) ! i))
        = (sgn (sint (price (asks b ! i))) * (\<bar>sint (price (asks b ! i))\<bar> div 1000)) mod 2 ^ 32)
   \<and> uint (snap_last_price (getSnapshot b))
        = (sgn (sint (last_trade_price b)) * (\<bar>sint (last_trade_price b)\<bar> div 1000)) mod 2 ^ 32
   \<and> unat (count (snap_bids (getSnapshot b))) = min (bid_count b) CME_MAX_DEPTH
   \<and> unat (count (snap_asks (getSnapshot b))) = min (ask_count b) CME_MAX_DEPTH"
proof -
  have "min (bid_count b) CME_MAX_DEPTH < 256" "min (ask_count b) CME_MAX_DEPTH < 256"
    by simp_all
  then have "unat (of_nat (min (bid_count b) CME_MAX_DEPTH) :: u8) = min (bid_count b) CME_MAX_DEPTH"
    "unat (of_nat (min (ask_count b) CME_MAX_DEPTH) :: u8) = min (ask_count b) CME_MAX_DEPTH"
    by (simp_all add: unat_of_nat del: of_nat_min)
  then show ?thesis
    by (simp add: getSnapshot_def levels_convertSide convertLevel_def uint_cmeToFixedPrice
          convertSide_def Let_def del: of_nat_min)
qed

theorem negative_price_published_wrapped_witness:
  "0 < min (bid_count book_neg) CME_MAX_DEPTH
   \<and> sint (price (bids book_neg ! 0)) = - 1500
   \<and> pl_price (levels (snap_bids (getSnapshot book_neg)) ! 0) = 4294967295
   \<and> sint (last_trade_price book_neg) = - 2999
   \<and> snap_last_price (getSnapshot book_neg) = 4294967294"
proof -
  have b: "bid_count book_neg = 1" "price (bids book_neg ! 0) = - 1500"
    "last_trade_price book_neg = - 2999"
    by code_simp+
  have e: "\<And>w :: u32. uint w = 4294967295 \<Longrightarrow> w = 4294967295"
     "\<And>w :: u32. uint w = 4294967294 \<Longrightarrow> w = 4294967294"
    by (simp_all add: word_uint_eq_iff)
  from negative_price_published_wrapped [of 0 book_neg] show ?thesis
    by (simp add: b e)
qed

subsection \<open>The recovery state machine in Normal (C7)\<close>

lemma map_of_set_state [simp]:
  "map_of (states (set_state rm sid st)) = (map_of (states rm))(sid \<mapsto> st)"
  by (simp add: set_state_def update_conv')

lemma stats_set_state [simp]: "stats (set_state rm sid st) = stats rm"
  by (simp add: set_state_def)

lemma set_state_twice [simp]: "set_state (set_state rm sid st) sid st = set_state rm sid st"
  by (simp add: set_state_def)

text \<open>
  C7, as stated: in Normal, two successive entries with the same \<open>rpt_seq\<close> are both
  accepted.  The sequence number is a 32-bit value and \<open>rpt_seq + 1\<close> wraps: with the
  instrument in step at \<open>0xFFFFFFFE\<close>, the first entry with \<open>0xFFFFFFFF\<close> is
  accepted and sets the expected sequence to 0, and the second is taken for a gap.
\<close>

theorem repeated_seq_counterexample:
  "getState rm_edge 1001 = Normal
   \<and> fst (onIncrementalMessage rm_edge 1001 0xFFFFFFFF)
   \<and> \<not> fst (onIncrementalMessage (snd (onIncrementalMessage rm_edge 1001 0xFFFFFFFF)) 1001 0xFFFFFFFF)
   \<and> getState (snd (onIncrementalMessage (snd (onIncrementalMessage rm_edge 1001 0xFFFFFFFF)) 1001 0xFFFFFFFF)) 1001 = GapDetected"
  by code_simp

text \<open>
  C7, amended: in Normal, when an entry's \<open>rpt_seq\<close> lies in the accepted window
  (\<open>last_good \<le> rpt_seq \<le> expected\<close>) and is either equal to \<open>last_good\<close> or
  below \<open>0xFFFFFFFF\<close>, that entry and a second one with the same \<open>rpt_seq\<close> are both
  accepted; the first, when \<open>rpt_seq\<close> exceeds \<open>last_good\<close>, sets \<open>last_good\<close>
  to \<open>rpt_seq\<close> and \<open>expected\<close> to \<open>rpt_seq + 1\<close> (and changes nothing when they
  are equal); the second leaves the whole recovery manager as the first left it.
\<close>

theorem repeated_seq_accepted:
  assumes st: "map_of (states rm) sid = Some st"
    and normal: "state st = Normal"
    and window: "last_good_rpt_seq st \<le> seq" "seq \<le> expected_rpt_seq st"
    and nowrap: "seq = last_good_rpt_seq st \<or> seq \<noteq> 0xFFFFFFFF"
  shows "fst (onIncrementalMessage rm sid seq)
       \<and> fst (onIncrementalMessage (snd (onIncrementalMessage rm sid seq)) sid seq)
       \<and> snd (onIncrementalMessage (snd (onIncrementalMessage rm sid seq)) sid seq)
           = snd (onIncrementalMessage rm sid seq)
       \<and> (last_good_rpt_seq st < seq \<longrightarrow>
            map_of (states (snd (onIncrementalMessage rm sid seq))) sid
              = Some (st\<lparr>expected_rpt_seq := seq + 1, last_good_rpt_seq := seq\<rparr>))
       \<and> (seq = last_good_rpt_seq st \<longrightarrow> snd (onIncrementalMessage rm sid seq) = rm)"
proof (cases "last_good_rpt_seq st < seq")
  case True
  with nowrap have "seq \<noteq> - 1" by auto
  then have "\<not> seq + 1 \<le> seq"
    by (simp add: inc_less_eq_self_iff_eq)
  then have le: "seq \<le> seq + 1"
    by simp
  let ?st' = "st\<lparr>expected_rpt_seq := seq + 1, last_good_rpt_seq := seq\<rparr>"
  from st normal window True
  have first: "onIncrementalMessage rm sid seq = (True, set_state rm sid ?st')"
    by (simp add: onIncrementalMessage_def)
  from normal le
  have second: "onIncrementalMessage (set_state rm sid ?st') sid seq = (True, set_state rm sid ?st')"
    by (simp add: onIncrementalMessage_def)
  from first second True show ?thesis by simp
next
  case False
  with window have eq: "seq = last_good_rpt_seq st" by simp
  with st normal window
  have "onIncrementalMessage rm sid seq = (True, rm)"
    by (simp add: onIncrementalMessage_def)
  with eq show ?thesis by simp
qed

theorem repeated_seq_accepted_witness:
  "map_of (states rm_five) 1001
     = Some (SecurityRecoveryState0\<lparr>expected_rpt_seq := 5, last_good_rpt_seq := 4\<rparr>)
   \<and> fst (onIncrementalMessage rm_five 1001 5)
   \<and> fst (onIncrementalMessage (snd (onIncrementalMessage rm_five 1001 5)) 1001 5)
   \<and> snd (onIncrementalMessage (snd (onIncrementalMessage rm_five 1001 5)) 1001 5)
       = snd (onIncrementalMessage rm_five 1001 5)
   \<and> map_of (states (snd (onIncrementalMessage rm_five 1001 5))) 1001
       = Some (SecurityRecoveryState0\<lparr>expected_rpt_seq := 6, last_good_rpt_seq := 5\<rparr>)"
proof -
  let ?st = "SecurityRecoveryState0\<lparr>expected_rpt_seq := 5, last_good_rpt_seq := 4\<rparr>"
  have a: "map_of (states rm_five) 1001 = Some ?st"
    by code_simp
  have b: "state ?st = Normal" "last_good_rpt_seq ?st \<le> 5" "5 \<le> expected_rpt_seq ?st"
    "(5 :: u32) = last_good_rpt_seq ?st \<or> (5 :: u32) \<noteq> 0xFFFFFFFF"
    by (simp_all add: SecurityRecoveryState0_def)
  from repeated_seq_accepted [OF a b] a show ?thesis
    by (simp add: SecurityRecoveryState0_def)
qed

subsection \<open>Incrementals during recovery (C6)\<close>

lemma onIncrementalMessage_in_recovery:
  "map_of (states rm) sid = Some st \<Longrightarrow> state st \<noteq> Normal \<Longrightarrow>
   onIncrementalMessage rm sid seq = (False, drop_message rm)"
  by (cases "state st") (simp_all add: onIncrementalMessage_def)

lemma states_drop_message [simp]: "states (drop_message rm) = states rm"
  by (simp add: drop_message_def)

lemma onIncrementalMessage_other:
  "sid' \<noteq> sid \<Longrightarrow>
   map_of (states (snd (onIncrementalMessage rm sid' seq))) sid = map_of (states rm) sid"
  by (simp add: onIncrementalMessage_def initSecurity_def split: option.split RecoveryState.split)

lemma applyIncremental_other:
  "security_id e \<noteq> sid \<Longrightarrow> map_of (books (applyIncremental m e)) sid = map_of (books m) sid"
  by (simp add: applyIncremental_def getBook_def markDirty_def update_conv'
        split: option.split)

lemma handle_entry_in_recovery:
  assumes "map_of (states (recovery_manager fh)) (security_id e) = Some st"
    and "state st \<noteq> Normal"
  shows "handleIncrementalRefresh_entry fh e
           = fh\<lparr>recovery_manager := drop_message (recovery_manager fh)\<rparr>"
  using onIncrementalMessage_in_recovery [OF assms]
  by (simp add: handleIncrementalRefresh_entry_def)

lemma handle_entry_keeps:
  assumes "map_of (states (recovery_manager fh)) sid = Some st" and "state st \<noteq> Normal"
  shows "map_of (states (recovery_manager (handleIncrementalRefresh_entry fh e))) sid = Some st
       \<and> map_of (books (book_manager (handleIncrementalRefresh_entry fh e))) sid
           = map_of (books (book_manager fh)) sid"
proof (cases "security_id e = sid")
  case True
  with assms show ?thesis
    by (simp add: handle_entry_in_recovery)
next
  case False
  obtain ok rm where r: "onIncrementalMessage (recovery_manager fh) (security_id e) (rpt_seq e) = (ok, rm)"
    by (cases "onIncrementalMessage (recovery_manager fh) (security_id e) (rpt_seq e)")
  with onIncrementalMessage_other [OF False, of "recovery_manager fh" "rpt_seq e"] assms(1)
  have "map_of (states rm) sid = Some st" by simp
  with r False show ?thesis
    by (simp add: handleIncrementalRefresh_entry_def applyIncremental_other Let_def)
qed

lemma handle_all_keeps:
  assumes "map_of (states (recovery_manager fh)) sid = Some st" and "state st \<noteq> Normal"
  shows "map_of (states (recovery_manager (handleIncrementalRefresh fh es))) sid = Some st
       \<and> map_of (books (book_manager (handleIncrementalRefresh fh es))) sid
           = map_of (books (book_manager fh)) sid"
  using assms
proof (induction es arbitrary: fh)
  case Nil
  then show ?case by simp
next
  case (Cons e es)
  from handle_entry_keeps [OF Cons.prems, of e] Cons.IH [of "handleIncrementalRefresh_entry fh e"]
    Cons.prems(2)
  show ?case by simp
qed

text \<open>
  C6: while the recovery record of an instrument is in GapDetected or Recovering, an
  incremental entry for it is rejected by the state machine, changes nothing but
  \<open>messages_dropped\<close>, which it increases by one, and leaves the book manager as it
  is; and however many entries (for this or other instruments) an incremental message
  carries, the instrument's book and its recovery record are the same after it, so the
  same holds for the next message.
\<close>

theorem no_incremental_applied_in_recovery:
  assumes "map_of (states (recovery_manager fh)) sid = Some st" and "state st \<noteq> Normal"
  shows "(security_id e = sid \<longrightarrow>
            \<not> fst (onIncrementalMessage (recovery_manager fh) sid (rpt_seq e))
          \<and> handleIncrementalRefresh_entry fh e
              = fh\<lparr>recovery_manager :=
                     (recovery_manager fh)\<lparr>stats := (stats (recovery_manager fh))
                        \<lparr>messages_dropped :=
                           messages_dropped (stats (recovery_manager fh)) + 1\<rparr>\<rparr>\<rparr>)
       \<and> map_of (books (book_manager (handleIncrementalRefresh fh es))) sid
           = map_of (books (book_manager fh)) sid
       \<and> map_of (states (recovery_manager (handleIncrementalRefresh fh es))) sid = Some st"
proof (intro conjI impI)
  assume e: "security_id e = sid"
  from onIncrementalMessage_in_recovery [OF assms]
  show "\<not> fst (onIncrementalMessage (recovery_manager fh) sid (rpt_seq e))" by simp
  from e assms handle_entry_in_recovery [of fh e st]
  show "handleIncrementalRefresh_entry fh e
              = fh\<lparr>recovery_manager :=
                     (recovery_manager fh)\<lparr>stats := (stats (recovery_manager fh))
                        \<lparr>messages_dropped :=
                           messages_dropped (stats (recovery_manager fh)) + 1\<rparr>\<rparr>\<rparr>"
    by (simp add: drop_message_def)
next
  from handle_all_keeps [OF assms]
  show "map_of (books (book_manager (handleIncrementalRefresh fh es))) sid
           = map_of (books (book_manager fh)) sid"
    and "map_of (states (recovery_manager (handleIncrementalRefresh fh es))) sid = Some st"
    by simp_all
qed

theorem no_incremental_applied_in_recovery_witness:
  "map_of (states (recovery_manager fh_gap)) 1001
     = Some \<lparr>state = GapDetected, expected_rpt_seq = 2, last_good_rpt_seq = 1,
             snapshot_rpt_seq = 0, gap_detected_time = 0, recovery_attempts = 1,
             buffered_updates = []\<rparr>
   \<and> \<not> fst (onIncrementalMessage (recovery_manager fh_gap) 1001 6)
   \<and> book_manager (handleIncrementalRefresh_entry fh_gap (mk_entry 6 Bid New 1 900 1 1))
       = book_manager fh_gap
   \<and> messages_dropped (stats (recovery_manager
         (handleIncrementalRefresh_entry fh_gap (mk_entry 6 Bid New 1 900 1 1)))) = 1
   \<and> map_of (books (book_manager (handleIncrementalRefresh fh_gap
         [mk_entry 6 Bid New 1 900 1 1, mk_entry 7 Bid New 1 950 1 1]))) 1001
       = map_of (books (book_manager fh_gap)) 1001"
proof -
  let ?st = "\<lparr>state = GapDetected, expected_rpt_seq = 2, last_good_rpt_seq = 1,
             snapshot_rpt_seq = 0, gap_detected_time = 0, recovery_attempts = 1,
             buffered_updates = []\<rparr>"
  have a: "map_of (states (recovery_manager fh_gap)) 1001 = Some ?st"
    by code_simp
  have b: "state ?st \<noteq> Normal" by simp
  have c: "messages_dropped (stats (recovery_manager fh_gap)) = 0"
    by code_simp
  have d: "security_id (mk_entry 6 Bid New 1 900 1 1) = 1001"
    "rpt_seq (mk_entry 6 Bid New 1 900 1 1) = 6"
    by (simp_all add: mk_entry_def)
  from no_incremental_applied_in_recovery [OF a b, of "mk_entry 6 Bid New 1 900 1 1"
      "[mk_entry 6 Bid New 1 900 1 1, mk_entry 7 Bid New 1 950 1 1]"] a c d
  show ?thesis by (simp del: handleIncrementalRefresh.simps)
qed

subsection \<open>Channel reset (C1)\<close>

lemma handleChannelReset_eq:
  "handleChannelReset fh = fh\<lparr>book_manager := manager_clear (book_manager fh)\<rparr>"
  by (simp add: handleChannelReset_def manager_clear_def getAllSecurityIds_def)

text \<open>
  C1 on the code: instrument 1001 is in GapDetected with expected sequence 2, and
  instrument 1002 in Normal with expected sequence 3.  After \<open>handleChannelReset\<close>
  the books are gone, and both recovery records are what they were: the loop that
  resets them runs over the identifiers of the books that are left, and none is.
\<close>

theorem channel_reset_leaves_recovery_states:
  "getState (recovery_manager fh_gap) 1001 = GapDetected
   \<and> getState (recovery_manager (handleChannelReset fh_gap)) 1001 = GapDetected
   \<and> getExpectedRptSeq (recovery_manager (handleChannelReset fh_gap)) 1001 = 2
   \<and> getExpectedRptSeq (recovery_manager (handleChannelReset fh_gap)) 1002 = 3
   \<and> books (book_manager (handleChannelReset fh_gap)) = []"
proof -
  have "getState (recovery_manager fh_gap) 1001 = GapDetected"
    "getExpectedRptSeq (recovery_manager fh_gap) 1001 = 2"
    "getExpectedRptSeq (recovery_manager fh_gap) 1002 = 3"
    by code_simp+
  then show ?thesis
    by (simp add: handleChannelReset_eq manager_clear_def)
qed

subsection \<open>The conflation tick (C5)\<close>

lemma publishSnapshot_keeps:
  "recovery_manager (publishSnapshot fh snap) = recovery_manager fh
   \<and> book_manager (publishSnapshot fh snap) = book_manager fh"
  by (simp add: publishSnapshot_def Let_def split: prod.split)

lemma dirty_getBook [simp]:
  "dirty_securities (snd (getBook m sid)) = dirty_securities m"
  by (simp add: getBook_def split: option.split)

lemma publish_one_keeps:
  "recovery_manager (publish_one now fh sid) = recovery_manager fh
   \<and> dirty_securities (book_manager (publish_one now fh sid))
       = dirty_securities (book_manager fh)"
proof (cases "getBook (book_manager fh) sid")
  case (Pair book bm)
  with dirty_getBook [of "book_manager fh" sid] show ?thesis
    by (simp add: publish_one_def Let_def publishSnapshot_keeps)
qed

lemma publish_all_keeps:
  "recovery_manager (publish_all now fh sids) = recovery_manager fh
   \<and> dirty_securities (book_manager (publish_all now fh sids))
       = dirty_securities (book_manager fh)"
  by (induction sids arbitrary: fh) (simp_all add: publish_one_keeps)

lemma publish_one_skips:
  "getState (recovery_manager fh) sid \<noteq> Normal \<Longrightarrow> publish_one now fh sid = fh"
  by (simp add: publish_one_def)

lemma publish_all_filter:
  "recovery_manager fh = rm \<Longrightarrow>
   publish_all now fh (filter (\<lambda>sid. getState rm sid = Normal) sids) = publish_all now fh sids"
proof (induction sids arbitrary: fh)
  case Nil
  then show ?case by simp
next
  case (Cons sid sids)
  from Cons.prems have "recovery_manager (publish_one now fh sid) = rm"
    by (simp add: publish_one_keeps)
  from Cons.IH [OF this] have ih:
    "publish_all now (publish_one now fh sid) (filter (\<lambda>sid. getState rm sid = Normal) sids)
       = publish_all now (publish_one now fh sid) sids" .
  show ?case
  proof (cases "getState rm sid = Normal")
    case True
    with ih show ?thesis by simp
  next
    case False
    with Cons.prems have "publish_one now fh sid = fh"
      by (simp add: publish_one_skips)
    with ih False show ?thesis by simp
  qed
qed

text \<open>
  C5, as stated: a dirty instrument that is not in Normal is skipped and re-added to
  the dirty set.  Instrument 1001 is dirty and in GapDetected; after the tick it is not
  in the dirty set.
\<close>

theorem conflation_skips_and_drains_counterexample:
  "getState (recovery_manager fh_gap) 1001 \<noteq> Normal
   \<and> 1001 \<in> set (dirty_securities (book_manager fh_gap))
   \<and> 1001 \<notin> set (dirty_securities (book_manager (publishConflatedSnapshots 0 fh_gap)))"
proof -
  have "getState (recovery_manager fh_gap) 1001 \<noteq> Normal"
    "1001 \<in> set (dirty_securities (book_manager fh_gap))"
    by code_simp+
  moreover have "dirty_securities (book_manager (publishConflatedSnapshots 0 fh_gap)) = []"
    by (simp add: publishConflatedSnapshots_def getDirtySecurities_def publish_all_keeps)
  ultimately show ?thesis by simp
qed

text \<open>
  C5, amended: at a conflation tick a dirty instrument whose recovery state is not
  Normal is skipped (visiting it changes nothing, so the tick does what publishing the
  dirty instruments in Normal alone does), and the dirty set is empty after the tick:
  a skipped instrument is not re-added.  The recovery states are not changed.  The
  instrument is marked dirty again, and is back in Normal, when a snapshot message for
  it is accepted and applied.
\<close>

theorem conflation_skips_and_drains:
  "(getState (recovery_manager fh) sid \<noteq> Normal \<longrightarrow> publish_one now fh sid = fh)
   \<and> publishConflatedSnapshots now fh
       = publish_all now (fh\<lparr>book_manager := (book_manager fh)\<lparr>dirty_securities := []\<rparr>\<rparr>)
           (filter (\<lambda>sid. getState (recovery_manager fh) sid = Normal)
              (dirty_securities (book_manager fh)))
   \<and> dirty_securities (book_manager (publishConflatedSnapshots now fh)) = []
   \<and> recovery_manager (publishConflatedSnapshots now fh) = recovery_manager fh
   \<and> (fst (onSnapshotMessage (recovery_manager fh) sid seq last_incr) \<longrightarrow>
        sid \<in> set (dirty_securities (book_manager
                 (handleSnapshotFullRefresh fh last_incr sid seq entries)))
        \<and> getState (recovery_manager
                 (handleSnapshotFullRefresh fh last_incr sid seq entries)) sid = Normal)"
proof -
  have "sid \<in> set (dirty_securities (book_manager
                 (handleSnapshotFullRefresh fh last_incr sid seq entries)))
        \<and> getState (recovery_manager
                 (handleSnapshotFullRefresh fh last_incr sid seq entries)) sid = Normal"
    if accepted: "fst (onSnapshotMessage (recovery_manager fh) sid seq last_incr)"
  proof -
    obtain rm where r: "onSnapshotMessage (recovery_manager fh) sid seq last_incr = (True, rm)"
      using accepted by (cases "onSnapshotMessage (recovery_manager fh) sid seq last_incr") simp
    then have "map_of (states rm) sid \<noteq> None"
      by (auto simp: onSnapshotMessage_def initSecurity_def
            split: option.splits RecoveryState.splits if_splits)
    then have "getState (completeRecovery rm sid seq) sid = Normal"
      by (auto simp: getState_def completeRecovery_def)
    with r show ?thesis
      by (simp add: handleSnapshotFullRefresh_def manager_applySnapshot_def markDirty_def
            split: prod.split)
  qed
  then show ?thesis
    by (simp add: publishConflatedSnapshots_def getDirtySecurities_def publish_all_keeps
          publish_one_skips publish_all_filter)
qed

theorem conflation_skips_and_drains_witness:
  "getState (recovery_manager fh_gap) 1001 \<noteq> Normal
   \<and> publish_one 0 fh_gap 1001 = fh_gap
   \<and> dirty_securities (book_manager fh_gap) = [1002, 1001]
   \<and> publishConflatedSnapshots 0 fh_gap
       = publish_all 0 (fh_gap\<lparr>book_manager := (book_manager fh_gap)\<lparr>dirty_securities := []\<rparr>\<rparr>) [1002]
   \<and> dirty_securities (book_manager (publishConflatedSnapshots 0 fh_gap)) = []
   \<and> fst (onSnapshotMessage (recovery_manager fh_gap) 1001 7 6)
   \<and> 1001 \<in> set (dirty_securities (book_manager (handleSnapshotFullRefresh fh_gap 6 1001 7 [])))"
proof -
  have a: "getState (recovery_manager fh_gap) 1001 \<noteq> Normal"
    "getState (recovery_manager fh_gap) 1002 = Normal"
    "dirty_securities (book_manager fh_gap) = [1002, 1001]"
    "fst (onSnapshotMessage (recovery_manager fh_gap) 1001 7 6)"
    by code_simp+
  have f: "filter (\<lambda>sid. getState (recovery_manager fh_gap) sid = Normal)
              (dirty_securities (book_manager fh_gap)) = [1002]"
    using a by simp
  note r = conflation_skips_and_drains [of fh_gap 1001 0 7 6 "[]", unfolded f]
  from r a(1) have 1: "publish_one 0 fh_gap 1001 = fh_gap" by blast
  from r have 2: "publishConflatedSnapshots 0 fh_gap
       = publish_all 0 (fh_gap\<lparr>book_manager := (book_manager fh_gap)\<lparr>dirty_securities := []\<rparr>\<rparr>) [1002]"
    by blast
  from r have 3: "dirty_securities (book_manager (publishConflatedSnapshots 0 fh_gap)) = []"
    by blast
  from r a(4) have 4: "1001 \<in> set (dirty_securities (book_manager
      (handleSnapshotFullRefresh fh_gap 6 1001 7 [])))"
    by blast
  from a 1 2 3 4 show ?thesis by blast
qed

subsection \<open>The published message: encode, then decode (C8)\<close>

lemma length_le_bytes [simp]: "length (le_bytes n w) = n"
  by (simp add: le_bytes_def)

lemma bit_horner_sum_bytes:
  "bit (horner_sum uint 256 (ws :: u8 list)) n
     \<longleftrightarrow> n div 8 < length ws \<and> bit (ws ! (n div 8)) (n mod 8)"
  using bit_horner_sum_uint_exp_iff [of ws n] by simp

lemma le_word_le_bytes:
  fixes w :: "'a::len word"
  assumes "8 * n = LENGTH('a)"
  shows "le_word (le_bytes n w) = w"
proof (rule bit_word_eqI)
  fix m assume m: "m < LENGTH('a)"
  with assms have d: "m div 8 < n" by auto
  have "bit (le_word (le_bytes n w) :: 'a word) m
      = bit (horner_sum uint 256 (le_bytes n w)) m"
    using m by (simp add: le_word_def bit_word_of_int_iff)
  also have "\<dots> = bit (le_bytes n w ! (m div 8)) (m mod 8)"
    using d by (simp add: bit_horner_sum_bytes)
  also have "\<dots> = bit w (8 * (m div 8) + m mod 8)"
    using d m by (simp add: le_bytes_def bit_ucast_iff bit_drop_bit_eq)
  also have "\<dots> = bit w m" by simp
  finally show "bit (le_word (le_bytes n w) :: 'a word) m = bit w m" .
qed

lemma le_word_single [simp]: "le_word [b] = (b :: u8)"
proof -
  have "le_word (le_bytes 1 b) = b" by (rule le_word_le_bytes) simp
  then show ?thesis by (simp add: le_bytes_def)
qed

lemma length_strncpy [simp]: "length (strncpy src n) = n"
  by (simp add: strncpy_def)

lemma length_PriceLevelEntry_bytes [simp]: "length (PriceLevelEntry_bytes e) = 15"
  by (simp add: PriceLevelEntry_bytes_def)

lemma length_MessageHeader_bytes [simp]: "length (MessageHeader_bytes a b c d) = 8"
  by (simp add: MessageHeader_bytes_def)

lemma length_GroupHeader_bytes [simp]: "length (GroupHeader_bytes a b) = 3"
  by (simp add: GroupHeader_bytes_def)

lemma length_L2SnapshotRoot_bytes [simp]:
  "length (L2SnapshotRoot_bytes s t q p l v b a) = 46"
  by (simp add: L2SnapshotRoot_bytes_def)

lemma length_concat_entries [simp]:
  "length (concat (map (\<lambda>i. PriceLevelEntry_bytes (f i)) xs)) = 15 * length xs"
  by (induction xs) simp_all

lemma slice_prefix:
  "length pre = off \<Longrightarrow> slice (pre @ xs @ post) off (length xs) = xs"
  by (simp add: slice_def)

lemma nth_prefix:
  "length pre = off \<Longrightarrow> i < length xs \<Longrightarrow> (pre @ xs @ post) ! (off + i) = xs ! i"
  by (simp add: nth_append)

lemma slice_entries:
  "i < length xs \<Longrightarrow>
   slice (concat (map (\<lambda>j. PriceLevelEntry_bytes (f j)) xs) @ post) (15 * i) 15
     = PriceLevelEntry_bytes (f (xs ! i))"
proof (induction xs arbitrary: i)
  case Nil
  then show ?case by simp
next
  case (Cons x xs)
  show ?case
  proof (cases i)
    case 0
    then show ?thesis by (simp add: slice_def)
  next
    case (Suc k)
    with Cons.prems have "k < length xs" by simp
    from Cons.IH [OF this] Suc show ?thesis
      by (simp add: slice_def)
  qed
qed

lemma slice_slice:
  "a + n \<le> m \<Longrightarrow> slice (slice buf off m) a n = slice buf (off + a) n"
  by (simp add: slice_def drop_take min_def add.commute)

lemma PriceLevelEntry_at_bytes:
  assumes "slice buf off 15 = PriceLevelEntry_bytes e"
  shows "PriceLevelEntry_at buf off = e"
proof -
  have s: "slice buf (off + a) n = slice (PriceLevelEntry_bytes e) a n" if "a + n \<le> 15" for a n
    using slice_slice [OF that, of buf off] assms by simp
  have w: "le_word (le_bytes 8 (ple_price e)) = ple_price e"
    "le_word (le_bytes 4 (ple_quantity e)) = ple_quantity e"
    "le_word (le_bytes 2 (ple_numOrders e)) = ple_numOrders e"
    by (rule le_word_le_bytes, simp)+
  have "slice buf off 1 = [ple_level e]"
    using s [of 0 1] by (simp add: PriceLevelEntry_bytes_def slice_def)
  moreover have "slice buf (off + 1) 8 = le_bytes 8 (ple_price e)"
    using s [of 1 8] by (simp add: PriceLevelEntry_bytes_def slice_def)
  moreover have "slice buf (off + 9) 4 = le_bytes 4 (ple_quantity e)"
    using s [of 9 4] by (simp add: PriceLevelEntry_bytes_def slice_def)
  moreover have "slice buf (off + 13) 2 = le_bytes 2 (ple_numOrders e)"
    using s [of 13 2] by (simp add: PriceLevelEntry_bytes_def slice_def)
  ultimately show ?thesis
    by (simp add: PriceLevelEntry_at_def w)
qed

lemma uint_ucast_32_64: "uint (ucast (x :: u32) :: u64) = uint x"
  by (simp add: unsigned_ucast_eq take_bit_int_eq_self_iff) (rule order_less_trans [OF uint_bounded], simp)

lemma uint_priceToSbe: "uint ((ucast (x :: u32) :: u64) * 1000) = uint x * 1000"
proof -
  have b: "uint x < 2 ^ 32" using uint_bounded [of x] by simp
  have "uint ((ucast x :: u64) * 1000) = (uint (ucast x :: u64) * uint (1000 :: u64)) mod 2 ^ 64"
    by (simp only: uint_word_ariths) simp
  also have "\<dots> = (uint x * 1000) mod 2 ^ 64"
    by (simp only: uint_ucast_32_64) simp
  also have "\<dots> = uint x * 1000"
    using b by (intro mod_pos_pos_trivial) simp_all
  finally show ?thesis .
qed

lemma sint_priceToSbe: "sint ((ucast (x :: u32) :: u64) * 1000) = uint x * 1000"
proof -
  have b: "uint x < 2 ^ 32" using uint_bounded [of x] by simp
  then have hi: "uint x * 1000 < 2 ^ 63" by simp
  have lo: "- (2 ^ 63) \<le> uint x * 1000"
    by (rule order_trans [of _ 0]) simp_all
  have "sint ((ucast x :: u64) * 1000) = signed_take_bit 63 (uint ((ucast x :: u64) * 1000))"
    by (simp add: sint_uint)
  also have "\<dots> = signed_take_bit 63 (uint x * 1000)"
    by (simp only: uint_priceToSbe)
  also have "\<dots> = uint x * 1000"
    by (rule signed_take_bit_int_eq_self [OF lo hi])
  finally show ?thesis .
qed

lemma sdiv_1000_exact: "(uint (x :: u32) * 1000) sdiv 1000 = uint x"
proof (cases "uint x = 0")
  case True
  then show ?thesis by (simp add: signed_divide_int_def)
next
  case False
  then have "0 < uint x" by (simp add: less_le)
  then show ?thesis by (simp add: signed_divide_int_def)
qed

lemma sint_1000: "sint (1000 :: i64) = 1000"
  by simp

lemma priceFromSbe_priceToSbe: "priceFromSbe (priceToSbe x) = x"
proof -
  have "sdiv64 (priceToSbe x) 1000 = word_of_int (uint x)"
    by (simp only: sdiv64_def priceToSbe_def sint_priceToSbe sint_1000 sdiv_1000_exact)
  then have "priceFromSbe (priceToSbe x) = ucast (word_of_int (uint x) :: u64)"
    by (simp only: priceFromSbe_def)
  also have "\<dots> = x"
    by (rule bit_word_eqI) (auto simp: bit_simps)
  finally show ?thesis .
qed

lemma slice_drop_prefix:
  "length pre = k \<Longrightarrow> slice (pre @ ys) (k + n) m = slice ys n m"
  by (simp add: slice_def)

lemma nth_drop_prefix:
  "length pre = k \<Longrightarrow> (pre @ ys) ! (k + n) = ys ! n"
  by (simp add: nth_append)

lemma takeWhile_strncpy:
  assumes "length src \<le> n" and "0 \<notin> set src"
  shows "takeWhile (\<lambda>c. c \<noteq> 0) (strncpy src n) = src"
proof -
  have a: "x \<noteq> 0" if "x \<in> set src" for x
    using that assms(2) by auto
  then have t: "takeWhile (\<lambda>c. c \<noteq> 0) src = src"
    by (simp add: takeWhile_eq_all_conv)
  from assms(1) have "strncpy src n = src @ replicate (n - length src) 0"
    by (simp add: strncpy_def t)
  moreover have "takeWhile (\<lambda>c. c \<noteq> 0) (src @ replicate (n - length src) 0)
      = src @ takeWhile (\<lambda>c. c \<noteq> 0) (replicate (n - length src) (0 :: u8))"
    by (rule takeWhile_append2) (rule a)
  moreover have "takeWhile (\<lambda>c. c \<noteq> 0) (replicate (n - length src) (0 :: u8)) = []"
    by (cases "n - length src") simp_all
  ultimately show ?thesis by simp
qed

lemma L2Snapshot_roundtrip_aux:
  fixes numBids_in numAsks_in bc ac :: u8 and symb :: "u8 list" and ts seq tv :: u64
    and ltp :: i64 and ltq :: u32 and bids_in asks_in :: "PriceLevelEntry list"
  defines "H \<equiv> MessageHeader_bytes (of_nat sizeof_L2SnapshotRoot) TEMPLATE_L2_SNAPSHOT SCHEMA_ID SCHEMA_VERSION"
    and "R \<equiv> L2SnapshotRoot_bytes symb ts seq ltp ltq tv bc ac"
    and "G1 \<equiv> GroupHeader_bytes (of_nat sizeof_PriceLevelEntry) numBids_in"
    and "B \<equiv> concat (map (\<lambda>i. PriceLevelEntry_bytes (bids_in ! i)) [0..<unat numBids_in])"
    and "G2 \<equiv> GroupHeader_bytes (of_nat sizeof_PriceLevelEntry) numAsks_in"
    and "A \<equiv> concat (map (\<lambda>i. PriceLevelEntry_bytes (asks_in ! i)) [0..<unat numAsks_in])"
  assumes buf: "buf = H @ R @ G1 @ B @ G2 @ A @ rest"
    and len: "calcL2SnapshotSize numBids_in numAsks_in \<le> len"
    and d: "d = parse buf len"
  shows "isValid d" 
    and "symbol d = strncpy symb 8" and "timestamp d = ts" and "sequenceNumber d = seq"
    and "lastTradePrice d = ltp" and "lastTradeQty d = ltq" and "totalVolume d = tv"
    and "bidCount d = bc" and "askCount d = ac"
    and "numBids d = numBids_in" and "numAsks d = numAsks_in"
    and "\<And>i. i < numBids_in \<Longrightarrow> getBid d i = Entry (bids_in ! unat i)"
    and "\<And>i. i < numAsks_in \<Longrightarrow> getAsk d i = Entry (asks_in ! unat i)"
proof -
  have lH: "length H = 8" and lR: "length R = 46" and lG1: "length G1 = 3"
    and lB: "length B = 15 * unat numBids_in" and lG2: "length G2 = 3"
    and lA: "length A = 15 * unat numAsks_in"
    by (simp_all add: H_def R_def G1_def B_def G2_def A_def)
  have nb: "numInGroup_at buf 54 = numBids_in"
  proof -
    have "buf ! (54 + 2) = ((H @ R) @ G1 @ (B @ G2 @ A @ rest)) ! (54 + 2)"
      by (simp add: buf)
    also have "\<dots> = G1 ! 2"
      by (rule nth_prefix) (simp_all add: lH lR lG1)
    finally show ?thesis
      by (simp add: numInGroup_at_def G1_def GroupHeader_bytes_def nth_append)
  qed
  have na: "numInGroup_at buf (57 + 15 * unat numBids_in) = numAsks_in"
  proof -
    have "buf ! (57 + 15 * unat numBids_in + 2)
        = ((H @ R @ G1 @ B) @ G2 @ (A @ rest)) ! (57 + 15 * unat numBids_in + 2)"
      by (simp add: buf)
    also have "\<dots> = G2 ! 2"
      by (rule nth_prefix) (simp_all add: lH lR lG1 lB lG2)
    finally show ?thesis
      by (simp add: numInGroup_at_def G2_def GroupHeader_bytes_def nth_append)
  qed
  have p: "parse buf len =
      \<lparr>buffer_ptr = buf, length_field = len, root_ptr = Some 8,
       bidsHeader_ptr = Some 54, bids_ptr = Some 57,
       asksHeader_ptr = Some (57 + 15 * unat numBids_in),
       asks_ptr = Some (60 + 15 * unat numBids_in)\<rparr>"
    using len nb na
    by (simp add: parse_def calcL2SnapshotSize_def Let_def mult.commute add.commute)
  have hdr: "slice buf 2 2 = le_bytes 2 TEMPLATE_L2_SNAPSHOT" "slice buf 4 2 = le_bytes 2 SCHEMA_ID"
    unfolding buf H_def MessageHeader_bytes_def by (simp_all add: slice_def)
  have root: "slice buf 8 8 = strncpy symb 8" "slice buf 16 8 = le_bytes 8 ts"
    "slice buf 24 8 = le_bytes 8 seq" "slice buf 32 8 = le_bytes 8 ltp"
    "slice buf 40 4 = le_bytes 4 ltq" "slice buf 44 8 = le_bytes 8 tv"
    "slice buf 52 1 = [bc]" "slice buf 53 1 = [ac]"
    unfolding buf R_def L2SnapshotRoot_bytes_def by (simp_all add: slice_def lH)
  have w: "le_word (le_bytes 2 TEMPLATE_L2_SNAPSHOT) = TEMPLATE_L2_SNAPSHOT"
    "le_word (le_bytes 2 SCHEMA_ID) = SCHEMA_ID"
    "le_word (le_bytes 8 ts) = ts" "le_word (le_bytes 8 seq) = seq"
    "le_word (le_bytes 8 ltp) = ltp" "le_word (le_bytes 4 ltq) = ltq"
    "le_word (le_bytes 8 tv) = tv"
    by (rule le_word_le_bytes, simp)+
  from len have "\<not> len < 8"
    by (simp add: calcL2SnapshotSize_def)
  then show "isValid d"
    by (simp add: isValid_def d p schemaId_def templateId_def hdr w)
  show "symbol d = strncpy symb 8"
    by (simp add: symbol_def root_field_def d p root)
  show "timestamp d = ts"
    by (simp add: timestamp_def root_field_def d p root w)
  show "sequenceNumber d = seq"
    by (simp add: sequenceNumber_def root_field_def d p root w)
  show "lastTradePrice d = ltp"
    by (simp add: lastTradePrice_def root_field_def d p root w)
  show "lastTradeQty d = ltq"
    by (simp add: lastTradeQty_def root_field_def d p root w)
  show "totalVolume d = tv"
    by (simp add: totalVolume_def root_field_def d p root w)
  show "bidCount d = bc"
    using root(7) by (simp add: bidCount_def root_field_def d p)
  show "askCount d = ac"
    using root(8) by (simp add: askCount_def root_field_def d p)
  show nbd: "numBids d = numBids_in"
    by (simp add: numBids_def d p nb)
  show nad: "numAsks d = numAsks_in"
    by (simp add: numAsks_def d p na)
  show "getBid d i = Entry (bids_in ! unat i)" if "i < numBids_in" for i
  proof -
    from that have i: "unat i < unat numBids_in"
      by (simp add: word_less_nat_alt)
    have "slice buf (57 + 15 * unat i) 15
        = slice (B @ G2 @ A @ rest) (15 * unat i) 15"
      unfolding buf using slice_drop_prefix [of "H @ R @ G1" 57 "B @ G2 @ A @ rest" "15 * unat i" 15]
      by (simp add: lH lR lG1)
    also have "\<dots> = PriceLevelEntry_bytes (bids_in ! ([0..<unat numBids_in] ! unat i))"
      unfolding B_def by (rule slice_entries) (simp add: i)
    finally have "slice buf (57 + 15 * unat i) 15 = PriceLevelEntry_bytes (bids_in ! unat i)"
      using i by simp
    then have "PriceLevelEntry_at buf (57 + unat i * 15) = bids_in ! unat i"
      by (simp add: PriceLevelEntry_at_bytes mult.commute)
    with that show ?thesis
      by (simp add: getBid_def nbd [unfolded d p] d p not_le [symmetric])
  qed
  show "getAsk d i = Entry (asks_in ! unat i)" if "i < numAsks_in" for i
  proof -
    from that have i: "unat i < unat numAsks_in"
      by (simp add: word_less_nat_alt)
    have "slice buf (60 + 15 * unat numBids_in + 15 * unat i) 15
        = slice (A @ rest) (15 * unat i) 15"
      unfolding buf
      using slice_drop_prefix [of "H @ R @ G1 @ B @ G2" "60 + 15 * unat numBids_in"
          "A @ rest" "15 * unat i" 15]
      by (simp add: lH lR lG1 lB lG2)
    also have "\<dots> = PriceLevelEntry_bytes (asks_in ! ([0..<unat numAsks_in] ! unat i))"
      unfolding A_def by (rule slice_entries) (simp add: i)
    finally have "slice buf (60 + 15 * unat numBids_in + 15 * unat i) 15
        = PriceLevelEntry_bytes (asks_in ! unat i)"
      using i by simp
    then have "PriceLevelEntry_at buf (60 + 15 * unat numBids_in + unat i * 15) = asks_in ! unat i"
      by (simp add: PriceLevelEntry_at_bytes mult.commute)
    with that show ?thesis
      by (simp add: getAsk_def nad [unfolded d p] d p not_le [symmetric])
  qed
qed

lemma length_L2Snapshot_message:
  "length (L2Snapshot_message symb ts seq ltp ltq tv bc ac bids_in nb asks_in na)
     = calcL2SnapshotSize nb na"
  by (simp add: L2Snapshot_message_def calcL2SnapshotSize_def)

text \<open>
  C8: an L2Snapshot with any root fields and bid and ask lists of at most 10 levels,
  encoded into a buffer that is large enough and decoded from it with a length of at
  least the encoded length, is valid and gives back every root field and every level;
  the symbol comes back as the 8-byte field the encoder stores, which holds the C string
  itself when that has at most 8 characters.  \<open>priceFromSbe (priceToSbe x) = x\<close> for
  every 32-bit price \<open>x\<close>.
\<close>

theorem L2Snapshot_roundtrip:
  fixes bc ac :: u8 and symb :: "u8 list" and ts seq tv :: u64
    and ltp :: i64 and ltq :: u32 and bids_in asks_in :: "PriceLevelEntry list"
  assumes levels: "length bids_in \<le> 10" "length asks_in \<le> 10"
    and enc: "encode buffer symb ts seq ltp ltq tv bc ac
                bids_in (of_nat (length bids_in)) asks_in (of_nat (length asks_in))
              = (ok, buf, n)"
    and large: "calcL2SnapshotSize (of_nat (length bids_in)) (of_nat (length asks_in))
                  \<le> length buffer"
    and dec: "d = parse buf len" "n \<le> len"
  shows "ok \<and> n = 8 + 46 + 3 + 15 * length bids_in + 3 + 15 * length asks_in
       \<and> isValid d
       \<and> symbol d = strncpy symb 8
       \<and> (length symb \<le> 8 \<and> 0 \<notin> set symb \<longrightarrow> takeWhile (\<lambda>c. c \<noteq> 0) (symbol d) = symb)
       \<and> timestamp d = ts \<and> sequenceNumber d = seq
       \<and> lastTradePrice d = ltp \<and> lastTradeQty d = ltq \<and> totalVolume d = tv
       \<and> bidCount d = bc \<and> askCount d = ac
       \<and> unat (numBids d) = length bids_in \<and> unat (numAsks d) = length asks_in
       \<and> (\<forall>i < length bids_in. getBid d (of_nat i) = Entry (bids_in ! i))
       \<and> (\<forall>i < length asks_in. getAsk d (of_nat i) = Entry (asks_in ! i))
       \<and> priceFromSbe (priceToSbe x) = x"
proof -
  let ?nb = "of_nat (length bids_in) :: u8" and ?na = "of_nat (length asks_in) :: u8"
  from levels have unb: "unat ?nb = length bids_in" and una: "unat ?na = length asks_in"
    by (simp_all add: unat_of_nat)
  let ?msg = "L2Snapshot_message symb ts seq ltp ltq tv bc ac bids_in ?nb asks_in ?na"
  from enc large have ok: "ok" and n: "n = calcL2SnapshotSize ?nb ?na"
    and buf: "buf = ?msg @ drop (length ?msg) buffer"
    by (auto simp: encode_def Let_def length_L2Snapshot_message)
  from n dec(2) have len: "calcL2SnapshotSize ?nb ?na \<le> len" by simp
  note buf' = buf [unfolded L2Snapshot_message_def append_assoc]
  note rt = L2Snapshot_roundtrip_aux [OF buf' len dec(1)]
  have sym: "symbol d = strncpy symb 8" by (rule rt)
  have bids_ok: "getBid d (of_nat i) = Entry (bids_in ! i)" if "i < length bids_in" for i
  proof -
    from that levels have u: "unat (of_nat i :: u8) = i"
      by (simp add: unat_of_nat)
    with that unb have "(of_nat i :: u8) < ?nb"
      by (simp add: word_less_nat_alt)
    from rt(12) [OF this] u show ?thesis by simp
  qed
  have asks_ok: "getAsk d (of_nat i) = Entry (asks_in ! i)" if "i < length asks_in" for i
  proof -
    from that levels have u: "unat (of_nat i :: u8) = i"
      by (simp add: unat_of_nat)
    with that una have "(of_nat i :: u8) < ?na"
      by (simp add: word_less_nat_alt)
    from rt(13) [OF this] u show ?thesis by simp
  qed
  from n unb una have "n = 8 + 46 + 3 + 15 * length bids_in + 3 + 15 * length asks_in"
    by (simp add: calcL2SnapshotSize_def)
  moreover have "unat (numBids d) = length bids_in" "unat (numAsks d) = length asks_in"
    using rt(10,11) unb una by simp_all
  moreover have "length symb \<le> 8 \<and> 0 \<notin> set symb
      \<longrightarrow> takeWhile (\<lambda>c. c \<noteq> 0) (symbol d) = symb"
    by (simp add: sym takeWhile_strncpy)
  ultimately show ?thesis
    using ok rt(1,3-9) sym bids_ok asks_ok priceFromSbe_priceToSbe by blast
qed

theorem L2Snapshot_roundtrip_witness:
  "fst sample_encoded \<and> snd (snd sample_encoded) = 75
   \<and> isValid (parse (fst (snd sample_encoded)) 75)
   \<and> takeWhile (\<lambda>c. c \<noteq> 0) (symbol (parse (fst (snd sample_encoded)) 75)) = map of_char ''ESH26''
   \<and> timestamp (parse (fst (snd sample_encoded)) 75) = 7
   \<and> lastTradePrice (parse (fst (snd sample_encoded)) 75) = - 1500
   \<and> bidCount (parse (fst (snd sample_encoded)) 75) = 1
   \<and> unat (numBids (parse (fst (snd sample_encoded)) 75)) = 1
   \<and> getBid (parse (fst (snd sample_encoded)) 75) 0 = Entry sample_bid
   \<and> priceFromSbe (priceToSbe 4500000) = 4500000"
proof -
  have l: "length [sample_bid] \<le> 10" "length ([] :: PriceLevelEntry list) \<le> 10"
    by simp_all
  have e: "encode (replicate 100 0) (map of_char ''ESH26'') 7 3 (- 1500) 2 9 1 0
       [sample_bid] (of_nat (length [sample_bid])) [] (of_nat (length ([] :: PriceLevelEntry list)))
     = (fst sample_encoded, fst (snd sample_encoded), snd (snd sample_encoded))"
    by (simp add: sample_encoded_def)
  have g: "calcL2SnapshotSize (of_nat (length [sample_bid])) (of_nat (length ([] :: PriceLevelEntry list)))
      \<le> length (replicate 100 (0 :: u8))"
    by (simp add: calcL2SnapshotSize_def)
  note r = L2Snapshot_roundtrip [OF l e g refl, of 75 4500000]
  have s: "length (map of_char ''ESH26'' :: u8 list) \<le> 8 \<and> 0 \<notin> set (map of_char ''ESH26'' :: u8 list)"
    by simp
  have n: "snd (snd sample_encoded) = 75"
    by (simp add: sample_encoded_def encode_def Let_def length_L2Snapshot_message calcL2SnapshotSize_def)
  from r [unfolded n] s show ?thesis
    by (simp add: n takeWhile_strncpy)
qed

subsection \<open>Reads beyond the datagram (C4)\<close>

text \<open>
  C4 on the code: a datagram of 20 bytes, the packet header and one message header
  with template 32, in a receive buffer that holds older bytes behind it.  The
  incremental parser checks that the message header lies within the datagram, and then
  reads \<open>num_in_group\<close> at offset 30, beyond the 20 bytes, before it compares the
  message size with the length.  The snapshot parser does the same with template 38, at
  offset 42.
\<close>

theorem group_count_read_beyond_datagram:
  "processIncrementalPacket header_only_incremental 20 = [Read 0 4, Read 14 2, Read 30 1]
   \<and> \<not> list_all (within_datagram 20) (processIncrementalPacket header_only_incremental 20)
   \<and> processSnapshotPacket header_only_snapshot 20 = [Read 14 2, Read 42 1]
   \<and> \<not> list_all (within_datagram 20) (processSnapshotPacket header_only_snapshot 20)"
  by code_simp

end
